theory Spec2Isabelle
  imports Main
begin

section \<open>C strings in fixed buffers\<close>

text \<open>
  A \<^verbatim>\<open>char\<close> array of the program is a list of bytes (\<^typ>\<open>char\<close> is a byte), as long as
  the array. The string a C function reads in it ends before the first NUL. The target's plain
  \<^verbatim>\<open>char\<close> is unsigned, so the comparison of a byte with 255 is the comparison with
  \<^term>\<open>CHR 0xFF\<close>.
\<close>

abbreviation NUL :: char where
  "NUL \<equiv> CHR 0x00"

abbreviation LF :: char where
  "LF \<equiv> CHR 0x0A"

abbreviation CR :: char where
  "CR \<equiv> CHR 0x0D"

definition cstr :: "string \<Rightarrow> string" where
  "cstr buf = takeWhile (\<lambda>c. c \<noteq> NUL) buf"

text \<open>
  \<^verbatim>\<open>strlcpy(dst, src, siz)\<close>: at most \<open>siz - 1\<close> bytes of the string \<open>src\<close> go to the start
  of \<open>dst\<close>, then a NUL; the bytes of \<open>dst\<close> behind that NUL stay. With \<open>siz = 0\<close> nothing is
  written.
\<close>

definition strlcpy :: "string \<Rightarrow> string \<Rightarrow> nat \<Rightarrow> string" where
  "strlcpy dst src siz =
     (if siz = 0 then dst
      else let k = min (length (cstr src)) (siz - 1)
           in take k (cstr src) @ [NUL] @ drop (k + 1) dst)"

text \<open>
  \<^verbatim>\<open>strlcat(dst, src, siz)\<close>: the end of the string in \<open>dst\<close> is looked for in the first
  \<open>siz\<close> bytes; when there is no NUL there, nothing is written. Otherwise as many bytes of
  \<open>src\<close> are appended as leave room for the NUL that follows them inside the first \<open>siz\<close>
  bytes.
\<close>

definition strlcat :: "string \<Rightarrow> string \<Rightarrow> nat \<Rightarrow> string" where
  "strlcat dst src siz =
     (let dlen = length (cstr (take siz dst))
      in if dlen = siz then dst
         else let k = min (length (cstr src)) (siz - dlen - 1)
              in take dlen dst @ take k (cstr src) @ [NUL] @ drop (dlen + k + 1) dst)"

text \<open>
  \<^verbatim>\<open>strtok\<close> on the string that starts at the saved position: leading delimiters are
  skipped; when nothing is left the result is the null pointer (\<open>None\<close>); otherwise the token
  runs up to the next delimiter, and the saved position moves behind that delimiter (it stays
  at the end of the string when the token ends there). The first call of a scan is made on
  \<^term>\<open>cstr\<close> of the buffer, the following ones (\<^verbatim>\<open>strtok(NULL, ...)\<close>) on the rest
  returned by the call before.
\<close>

definition strtok :: "string \<Rightarrow> string \<Rightarrow> (string \<times> string) option" where
  "strtok s delim =
     (let t = dropWhile (\<lambda>c. c \<in> set delim) s
      in if t = [] then None
         else Some (takeWhile (\<lambda>c. c \<notin> set delim) t,
                    drop 1 (dropWhile (\<lambda>c. c \<notin> set delim) t)))"

text \<open>
  \<^verbatim>\<open>fgets(buf, n, fp)\<close> on the unread bytes of a stream: at most \<open>n - 1\<close> bytes are read,
  and reading stops behind a newline. At end of file with nothing read the result is the null
  pointer. The result is the bytes put in \<open>buf\<close> (a NUL follows them there) and the bytes
  still unread.
\<close>

fun fgets_bytes :: "nat \<Rightarrow> string \<Rightarrow> string" where
  "fgets_bytes 0 cs = []"
| "fgets_bytes (Suc k) [] = []"
| "fgets_bytes (Suc k) (c # cs) = (if c = LF then [c] else c # fgets_bytes k cs)"

definition fgets :: "nat \<Rightarrow> string \<Rightarrow> (string \<times> string) option" where
  "fgets n unread =
     (if unread = [] \<or> n \<le> 1 then None
      else let l = fgets_bytes (n - 1) unread in Some (l, drop (length l) unread))"

section \<open>The bootloader control block\<close>

text \<open>
  Modelled from the spec: \<^verbatim>\<open>struct bootloader_message\<close> is declared in bootloader.h, which
  is not among the sources. Its three fields are character arrays of 32, 32 and 1024 bytes
  (section 6 of the specification).
\<close>

record bootloader_message =
  command :: string
  status :: string
  recovery :: string

definition COMMAND_SIZE :: nat where
  "COMMAND_SIZE = 32"

definition STATUS_SIZE :: nat where
  "STATUS_SIZE = 32"

definition RECOVERY_SIZE :: nat where
  "RECOVERY_SIZE = 1024"

text \<open>\<^verbatim>\<open>memset(&boot, 0, sizeof(boot))\<close>\<close>

definition zeroed :: bootloader_message where
  "zeroed = \<lparr>command = replicate COMMAND_SIZE NUL,
             status = replicate STATUS_SIZE NUL,
             recovery = replicate RECOVERY_SIZE NUL\<rparr>"

text \<open>An array holds exactly its size in bytes: what is stored is cut or padded to it.\<close>

definition sized :: "nat \<Rightarrow> string \<Rightarrow> string" where
  "sized n bytes = take n bytes @ replicate (n - length bytes) NUL"

definition as_struct :: "bootloader_message \<Rightarrow> bootloader_message" where
  "as_struct b = \<lparr>command = sized COMMAND_SIZE (command b),
                  status = sized STATUS_SIZE (status b),
                  recovery = sized RECOVERY_SIZE (recovery b)\<rparr>"

section \<open>The world of one run\<close>

datatype cache_file = COMMAND_FILE | INTENT_FILE | LOG_FILE

datatype file_name = Cache cache_file | TEMPORARY_LOG_FILE

datatype message =
    Boot_command
  | Boot_status
  | Got_arguments_from_boot_message
  | Bad_boot_message
  | Got_arguments_from cache_file
  | Cant_mount cache_file
  | Bad_path cache_file
  | Error_in file_name
  | Cant_open file_name
  | Cant_unlink cache_file
  | Cant_read_boot_message
  | Cant_write_boot_message
  | Invalid_command_argument
  | Cant_install_update_commands

datatype icon = BACKGROUND_ICON_INSTALLING | BACKGROUND_ICON_ERROR

datatype reboot_mode = RB_AUTOBOOT | RB_POWER_OFF

text \<open>
  What a run does to the outside is kept in order of occurrence: the lines logged with the
  three log macros (the text printed with a message is left out), the blocks handed to
  \<^verbatim>\<open>set_bootloader_message\<close>, and the calls of the collaborators of \<^verbatim>\<open>main\<close>.
\<close>

datatype event =
    LOGI message
  | LOGW message
  | LOGE message
  | Set_bootloader_message bootloader_message
  | Sync
  | Ui_print string
  | Ui_set_background icon
  | Ui_show_indeterminate_progress
  | Ui_reset_progress
  | Format_root_device string
  | Install_package string
  | System string
  | Ensure_root_path_mounted string
  | Get_menu_selection
  | Reboot_options
  | Menu_item nat
  | Gr_exit
  | Maybe_install_firmware_update "string option"
  | Reboot reboot_mode

text \<open>
  The state the functions work on. The \<open>_ok\<close> fields say how the environment answers: whether
  the control block can be read and written, whether \<^verbatim>\<open>ensure_root_path_mounted\<close> and
  \<^verbatim>\<open>translate_root_path\<close> succeed on a path of the cache volume, whether a file there can
  be opened for writing, whether bytes written to an open stream reach the file, and whether
  an existing file can be unlinked. A file is its content, \<open>None\<close> when there is none.
  \<open>tmplog_offset\<close> is the function-local static of \<^verbatim>\<open>finish_recovery\<close>.
\<close>

record world =
  bcb_store :: bootloader_message
  bcb_read_ok :: bool
  bcb_write_ok :: bool
  mount_ok :: bool
  path_ok :: bool
  fopen_w_ok :: bool
  fwrite_ok :: bool
  unlink_ok :: bool
  files :: "cache_file \<Rightarrow> string option"
  tmp_log :: "string option"
  tmplog_offset :: nat
  trace :: "event list"

definition emit :: "event \<Rightarrow> world \<Rightarrow> world" where
  "emit e w = w\<lparr>trace := trace w @ [e]\<rparr>"

text \<open>
  Modelled from the spec: \<^verbatim>\<open>get_bootloader_message\<close> and \<^verbatim>\<open>set_bootloader_message\<close>
  are defined in bootloader.c, which is not among the sources. Reading fails soft (section
  4.1): an error leaves the caller's zeroed structure and logs. Writing hands over the whole
  record in one operation; a failure is logged and the store keeps what it had.
\<close>

definition get_bootloader_message :: "world \<Rightarrow> bootloader_message \<times> world" where
  "get_bootloader_message w =
     (if bcb_read_ok w then (as_struct (bcb_store w), w)
      else (zeroed, emit (LOGE Cant_read_boot_message) w))"

definition set_bootloader_message :: "bootloader_message \<Rightarrow> world \<Rightarrow> world" where
  "set_bootloader_message b w =
     (let w' = emit (Set_bootloader_message b) w
      in if bcb_write_ok w then w'\<lparr>bcb_store := b\<rparr>
         else emit (LOGE Cant_write_boot_message) w')"

section \<open>Files of the cache volume\<close>

datatype mode = Read | Write | Append

text \<open>
  \<^verbatim>\<open>fopen_root_path\<close>: the result is the stream, \<open>None\<close> for the null pointer. A
  stream is the bytes still unread in it (none in a stream opened for writing). Opening for
  writing creates the file, or empties it; opening for appending creates it when it is
  missing.
\<close>

definition fopen_root_path :: "cache_file \<Rightarrow> mode \<Rightarrow> world \<Rightarrow> string option \<times> world" where
  "fopen_root_path f m w =
     (if \<not> mount_ok w then (None, emit (LOGE (Cant_mount f)) w)
      else if \<not> path_ok w then (None, emit (LOGE (Bad_path f)) w)
      else case m of
             Read \<Rightarrow> (files w f, w)
           | Write \<Rightarrow>
               if fopen_w_ok w then (Some [], w\<lparr>files := (files w)(f \<mapsto> [])\<rparr>) else (None, w)
           | Append \<Rightarrow>
               if fopen_w_ok w
               then (Some [],
                     w\<lparr>files := (files w)(f \<mapsto> (case files w f of None \<Rightarrow> [] | Some c \<Rightarrow> c))\<rparr>)
               else (None, w))"

text \<open>
  \<^verbatim>\<open>fputs\<close> on a stream of the cache volume opened for writing or appending: the bytes of
  the string go to the end of the file, or the stream's error indicator is set and the file
  keeps its content. The result carries the indicator.
\<close>

definition fputs :: "string \<Rightarrow> cache_file \<Rightarrow> bool \<times> world \<Rightarrow> bool \<times> world" where
  "fputs s f st =
     (case st of (err, w) \<Rightarrow>
        if cstr s = [] then (err, w)
        else if fwrite_ok w
        then (err, w\<lparr>files := (files w)(f \<mapsto> (case files w f of None \<Rightarrow> [] | Some c \<Rightarrow> c) @ cstr s)\<rparr>)
        else (True, w))"

text \<open>\<^verbatim>\<open>check_and_fclose\<close>: an error is logged when the stream's error indicator is set.\<close>

definition check_and_fclose :: "bool \<Rightarrow> file_name \<Rightarrow> world \<Rightarrow> world" where
  "check_and_fclose err name w = (if err then emit (LOGE (Error_in name)) w else w)"

section \<open>get_args\<close>

datatype error = Null_pointer_dereference | Options_table_overrun

definition MAX_ARG_LENGTH :: nat where
  "MAX_ARG_LENGTH = 4096"

definition MAX_ARGS :: nat where
  "MAX_ARGS = 100"

definition unset :: "char \<Rightarrow> bool" where
  "unset c \<longleftrightarrow> c = NUL \<or> c = CHR 0xFF"

text \<open>
  The loop over the lines of the control block behind the first one:
  \<^verbatim>\<open>for (*argc = 1; *argc < MAX_ARGS; ++*argc)\<close> with \<^verbatim>\<open>strtok(NULL, "\n")\<close>; the first
  argument counts the rounds that are left.
\<close>

fun boot_lines :: "nat \<Rightarrow> string \<Rightarrow> string list" where
  "boot_lines 0 rest = []"
| "boot_lines (Suc k) rest =
     (case strtok rest [LF] of
        None \<Rightarrow> []
      | Some (arg, rest') \<Rightarrow> arg # boot_lines k rest')"

text \<open>
  The block of \<^verbatim>\<open>get_args\<close> that looks in the control block, entered with
  \<^verbatim>\<open>*argc <= 1\<close>. The array is terminated at its last byte first. When the first token
  is the word \<open>recovery\<close>, the new vector is that token followed by the tokens behind it;
  otherwise the vector stays, and a field whose first byte is neither 0 nor 255 is reported.
\<close>

definition args_from_boot_message ::
    "bootloader_message \<Rightarrow> string list \<Rightarrow> world \<Rightarrow> string list \<times> world" where
  "args_from_boot_message boot argv w =
     (if length argv \<le> 1 then
        (let buf = (recovery boot)[RECOVERY_SIZE - 1 := NUL];
             otherwise = (if \<not> unset (buf ! 0) then (argv, emit (LOGE Bad_boot_message) w)
                          else (argv, w))
         in case strtok (cstr buf) [LF] of
              None \<Rightarrow> otherwise
            | Some (arg, rest) \<Rightarrow>
                if arg = ''recovery''
                then (arg # boot_lines (MAX_ARGS - 1) rest,
                      emit (LOGI Got_arguments_from_boot_message) w)
                else otherwise)
      else (argv, w))"

text \<open>
  \<^verbatim>\<open>strtok\<close> also writes: it ends the token it returns with a NUL in place of the
  delimiter behind it. The position of that delimiter in the string, if there is one: a token
  that ends with the string has the NUL of the string behind it.
\<close>

definition strtok_end :: "string \<Rightarrow> string \<Rightarrow> nat option" where
  "strtok_end s delim =
     (let t = dropWhile (\<lambda>c. c \<in> set delim) s;
          r = dropWhile (\<lambda>c. c \<notin> set delim) t
      in if r = [] then None else Some (length s - length r))"

text \<open>
  The positions the loop over the lines of the control block writes a NUL to; the second
  argument is the position in the array at which the rest of the string starts.
\<close>

fun boot_line_ends :: "nat \<Rightarrow> nat \<Rightarrow> string \<Rightarrow> nat list" where
  "boot_line_ends 0 pos rest = []"
| "boot_line_ends (Suc k) pos rest =
     (case strtok rest [LF] of
        None \<Rightarrow> []
      | Some (arg, rest') \<Rightarrow>
          (case strtok_end rest [LF] of
             None \<Rightarrow> []
           | Some e \<Rightarrow> (pos + e) # boot_line_ends k (pos + e + 1) rest'))"

text \<open>
  The struct as the block that looks in the control block leaves it, for the write at the end
  of \<^verbatim>\<open>get_args\<close>: the last byte of the recovery field is NUL, and so is the byte behind
  every token \<^verbatim>\<open>strtok\<close> has returned. With two or more arguments on the command line the
  block is not entered and the struct stays as read.
\<close>

definition boot_after_scan :: "bootloader_message \<Rightarrow> string list \<Rightarrow> bootloader_message" where
  "boot_after_scan boot argv =
     (if length argv \<le> 1 then
        (let buf = (recovery boot)[RECOVERY_SIZE - 1 := NUL];
             ends = (case strtok (cstr buf) [LF] of
                       None \<Rightarrow> []
                     | Some (arg, rest) \<Rightarrow>
                         (case strtok_end (cstr buf) [LF] of
                            None \<Rightarrow> []
                          | Some e \<Rightarrow>
                              e # (if arg = ''recovery''
                                   then boot_line_ends (MAX_ARGS - 1) (e + 1) rest else [])))
         in boot\<lparr>recovery := foldl (\<lambda>b p. b[p := NUL]) buf ends\<rparr>)
      else boot)"

text \<open>
  The loop over the lines of the command file:
  \<^verbatim>\<open>(*argv)[*argc] = strdup(strtok(buf, "\r\n"))\<close>. A line without a token gives
  \<^verbatim>\<open>strtok\<close> nothing to return, and \<^verbatim>\<open>strdup\<close> is handed the null pointer.
\<close>

fun file_lines :: "nat \<Rightarrow> string \<Rightarrow> error + string list" where
  "file_lines 0 unread = Inr []"
| "file_lines (Suc k) unread =
     (case fgets MAX_ARG_LENGTH unread of
        None \<Rightarrow> Inr []
      | Some (buf, unread') \<Rightarrow>
          (case strtok (cstr buf) [CR, LF] of
             None \<Rightarrow> Inl Null_pointer_dereference
           | Some (arg, rest) \<Rightarrow>
               (case file_lines k unread' of
                  Inl e \<Rightarrow> Inl e
                | Inr args \<Rightarrow> Inr (arg # args))))"

text \<open>
  \<^verbatim>\<open>(*argv)[0]\<close> of a vector: with \<^verbatim>\<open>argc = 0\<close> it is the null pointer that ends every
  vector; \<^verbatim>\<open>get_args\<close> only copies it, and it is carried as the empty string.
\<close>

definition argv0 :: "string list \<Rightarrow> string" where
  "argv0 argv = (case argv of [] \<Rightarrow> [] | a # _ \<Rightarrow> a)"

text \<open>The block that reads the command file, entered with \<^verbatim>\<open>*argc <= 1\<close> as well.\<close>

definition args_from_command_file :: "string list \<Rightarrow> world \<Rightarrow> error + string list \<times> world" where
  "args_from_command_file argv w =
     (if length argv \<le> 1 then
        (case fopen_root_path COMMAND_FILE Read w of
           (None, w') \<Rightarrow> Inr (argv, w')
         | (Some unread, w') \<Rightarrow>
             (case file_lines (MAX_ARGS - 1) unread of
                Inl e \<Rightarrow> Inl e
              | Inr args \<Rightarrow>
                  Inr (argv0 argv # args,
                       emit (LOGI (Got_arguments_from COMMAND_FILE))
                         (check_and_fclose False (Cache COMMAND_FILE) w'))))
      else Inr (argv, w))"

text \<open>
  The arguments written back: \<^verbatim>\<open>strlcat\<close> of each argument from index 1 on and of a
  newline behind it.
\<close>

fun strlcat_args :: "string \<Rightarrow> string list \<Rightarrow> string" where
  "strlcat_args buf [] = buf"
| "strlcat_args buf (a # as) =
     strlcat_args (strlcat (strlcat buf a RECOVERY_SIZE) [LF] RECOVERY_SIZE) as"

definition write_back :: "bootloader_message \<Rightarrow> string list \<Rightarrow> bootloader_message" where
  "write_back boot argv =
     boot\<lparr>command := strlcpy (command boot) ''boot-recovery'' COMMAND_SIZE,
          recovery := strlcat_args (strlcpy (recovery boot) (''recovery'' @ [LF]) RECOVERY_SIZE)
                        (drop 1 argv)\<rparr>"

definition log_boot_fields :: "bootloader_message \<Rightarrow> world \<Rightarrow> world" where
  "log_boot_fields boot w =
     (let w1 = (if \<not> unset (command boot ! 0) then emit (LOGI Boot_command) w else w)
      in if \<not> unset (status boot ! 0) then emit (LOGI Boot_status) w1 else w1)"

definition get_args :: "string list \<Rightarrow> world \<Rightarrow> error + string list \<times> world" where
  "get_args argv w =
     (case get_bootloader_message w of
        (boot, w1) \<Rightarrow>
          (case args_from_boot_message boot argv (log_boot_fields boot w1) of
             (argv1, w2) \<Rightarrow>
               (case args_from_command_file argv1 w2 of
                  Inl e \<Rightarrow> Inl e
                | Inr (argv2, w3) \<Rightarrow>
                    Inr (argv2, set_bootloader_message
                                 (write_back (boot_after_scan boot argv) argv2) w3))))"

section \<open>finish_recovery\<close>

text \<open>
  The copy loop \<^verbatim>\<open>while (fgets(buf, sizeof(buf), tmplog)) fputs(buf, log)\<close> on the unread
  bytes of the temporary log, with the position of the stream (what \<^verbatim>\<open>ftell\<close> returns
  behind the loop) and the log stream's error indicator.
\<close>

function copy_lines :: "string \<Rightarrow> nat \<Rightarrow> bool \<times> world \<Rightarrow> nat \<times> bool \<times> world" where
  "copy_lines unread pos st =
     (case fgets 4096 unread of
        None \<Rightarrow> (pos, st)
      | Some (buf, unread') \<Rightarrow> copy_lines unread' (pos + length buf) (fputs buf LOG_FILE st))"
  by pat_completeness auto
termination
proof (relation "measure (\<lambda>(unread, pos, st). length unread)")
  show "wf (measure (\<lambda>(unread, pos, st). length unread))" by simp
next
  fix unread :: string and pos :: nat and st :: "bool \<times> world" and x buf unread'
  assume "fgets 4096 unread = Some x" and "(buf, unread') = x"
  then have u: "unread \<noteq> []" and r: "unread' = drop (length (fgets_bytes 4095 unread)) unread"
    by (auto simp: fgets_def Let_def split: if_splits)
  from u have "fgets_bytes 4095 unread \<noteq> []"
    by (cases unread) (simp_all add: eval_nat_numeral)
  with u r have "length unread' < length unread" by simp
  then show "((unread', pos + length buf, fputs buf LOG_FILE st), unread, pos, st)
               \<in> measure (\<lambda>(unread, pos, st). length unread)"
    by simp
qed

declare copy_lines.simps [simp del]

text \<open>
  \<^verbatim>\<open>unlink\<close> of a file of the cache volume: \<open>None\<close> is the return value 0, otherwise the
  value of \<^verbatim>\<open>errno\<close>, where \<open>EROFS\<close> stands for every value other than \<open>ENOENT\<close>.
\<close>

datatype errno = ENOENT | EROFS

definition unlink :: "cache_file \<Rightarrow> world \<Rightarrow> errno option \<times> world" where
  "unlink f w =
     (case files w f of
        None \<Rightarrow> (Some ENOENT, w)
      | Some c \<Rightarrow> if unlink_ok w then (None, w\<lparr>files := (files w)(f := None)\<rparr>)
                  else (Some EROFS, w))"

definition write_intent :: "string option \<Rightarrow> world \<Rightarrow> world" where
  "write_intent send_intent w =
     (case send_intent of
        None \<Rightarrow> w
      | Some intent \<Rightarrow>
          (case fopen_root_path INTENT_FILE Write w of
             (None, w1) \<Rightarrow> emit (LOGE (Cant_open (Cache INTENT_FILE))) w1
           | (Some fp, w1) \<Rightarrow>
               (case fputs intent INTENT_FILE (False, w1) of
                  (err, w2) \<Rightarrow> check_and_fclose err (Cache INTENT_FILE) w2)))"

definition copy_logs :: "world \<Rightarrow> world" where
  "copy_logs w =
     (case fopen_root_path LOG_FILE Append w of
        (None, w1) \<Rightarrow> emit (LOGE (Cant_open (Cache LOG_FILE))) w1
      | (Some log, w1) \<Rightarrow>
          (case tmp_log w1 of
             None \<Rightarrow>
               check_and_fclose False (Cache LOG_FILE)
                 (emit (LOGE (Cant_open TEMPORARY_LOG_FILE)) w1)
           | Some tmplog \<Rightarrow>
               (case copy_lines (drop (tmplog_offset w1) tmplog) (tmplog_offset w1) (False, w1) of
                  (pos, err, w2) \<Rightarrow>
                    check_and_fclose err (Cache LOG_FILE)
                      (check_and_fclose False TEMPORARY_LOG_FILE (w2\<lparr>tmplog_offset := pos\<rparr>)))))"

definition remove_command_file :: "world \<Rightarrow> world" where
  "remove_command_file w =
     (if \<not> mount_ok w then emit (LOGW (Cant_unlink COMMAND_FILE)) w
      else if \<not> path_ok w then emit (LOGW (Cant_unlink COMMAND_FILE)) w
      else case unlink COMMAND_FILE w of
             (None, w1) \<Rightarrow> w1
           | (Some e, w1) \<Rightarrow> if e \<noteq> ENOENT then emit (LOGW (Cant_unlink COMMAND_FILE)) w1 else w1)"

definition finish_recovery :: "string option \<Rightarrow> world \<Rightarrow> world" where
  "finish_recovery send_intent w =
     emit Sync
       (remove_command_file
          (set_bootloader_message zeroed
             (copy_logs
                (write_intent send_intent w))))"

section \<open>main\<close>

text \<open>
  \<^verbatim>\<open>getopt_long\<close> with the table \<^verbatim>\<open>OPTIONS\<close> and the empty string of short options. The
  function needs a table that ends with an entry of zeros, and \<^verbatim>\<open>OPTIONS\<close> has none: a
  name equal to an entry's is found before the end of the table is reached, and for any other
  name the search is not bounded by the table, which is an error here.
\<close>

datatype has_arg = no_argument | required_argument

definition OPTIONS :: "(string \<times> has_arg \<times> char) list" where
  "OPTIONS = [(''send_intent'', required_argument, CHR ''s''),
              (''update_package'', required_argument, CHR ''u''),
              (''wipe_data'', no_argument, CHR ''w''),
              (''wipe_cache'', no_argument, CHR ''c'')]"

fun find_option :: "(string \<times> has_arg \<times> char) list \<Rightarrow> string \<Rightarrow> error + has_arg \<times> char" where
  "find_option [] name = Inl Options_table_overrun"
| "find_option ((n, h, v) # table) name =
     (if n = name then Inr (h, v) else find_option table name)"

definition returning :: "'a \<Rightarrow> error + 'a list \<Rightarrow> error + 'a list" where
  "returning x r = (case r of Inl e \<Rightarrow> Inl e | Inr xs \<Rightarrow> Inr (x # xs))"

text \<open>
  The values \<^verbatim>\<open>getopt_long\<close> returns, with \<^verbatim>\<open>optarg\<close>, on the elements of the vector
  behind the program name, until it returns -1. An element \<open>--\<close> ends the options; an element
  \<open>--name\<close> or \<open>--name=value\<close> is looked up; an option that needs an argument and has no
  \<open>=value\<close> takes the next element; any other element that starts with \<open>-\<close> and has more bytes
  is a group of short options, none of which exists; what is left is no option and is skipped.
\<close>

fun getopt_long :: "string list \<Rightarrow> error + (char \<times> string option) list" where
  "getopt_long [] = Inr []"
| "getopt_long (a # rest) =
     (if a = ''--'' then Inr []
      else if take 2 a = ''--'' then
        (let name = takeWhile (\<lambda>c. c \<noteq> CHR ''='') (drop 2 a);
             has_value = (CHR ''='' \<in> set (drop 2 a));
             val = drop (length name + 3) a
         in case find_option OPTIONS name of
              Inl e \<Rightarrow> Inl e
            | Inr (no_argument, v) \<Rightarrow>
                if has_value then returning (CHR ''?'', None) (getopt_long rest)
                else returning (v, None) (getopt_long rest)
            | Inr (required_argument, v) \<Rightarrow>
                if has_value then returning (v, Some val) (getopt_long rest)
                else (case rest of
                        [] \<Rightarrow> Inr [(CHR ''?'', None)]
                      | b # rest' \<Rightarrow> returning (v, Some b) (getopt_long rest')))
      else if 2 \<le> length a \<and> take 1 a = ''-'' then
        (case getopt_long rest of
           Inl e \<Rightarrow> Inl e
         | Inr rs \<Rightarrow> Inr (map (\<lambda>c. (CHR ''?'', None)) (drop 1 a) @ rs))
      else getopt_long rest)"

record options =
  send_intent :: "string option"
  update_package :: "string option"
  wipe_data :: bool
  wipe_cache :: bool

text \<open>
  The \<^verbatim>\<open>switch\<close> in the loop over the options. The case \<open>p\<close> sets a variable that is never
  read, and no entry of the table returns \<open>p\<close>.
\<close>

definition switch_arg :: "char \<times> string option \<Rightarrow> options \<times> world \<Rightarrow> options \<times> world" where
  "switch_arg r st =
     (case (r, st) of ((arg, optarg), (opts, w)) \<Rightarrow>
        if arg = CHR ''s'' then (opts\<lparr>send_intent := optarg\<rparr>, w)
        else if arg = CHR ''u'' then (opts\<lparr>update_package := optarg\<rparr>, w)
        else if arg = CHR ''w'' then (opts\<lparr>wipe_data := True, wipe_cache := True\<rparr>, w)
        else if arg = CHR ''c'' then (opts\<lparr>wipe_cache := True\<rparr>, w)
        else if arg = CHR ''?'' then (opts, emit (LOGE Invalid_command_argument) w)
        else (opts, w))"

definition no_options :: options where
  "no_options = \<lparr>send_intent = None, update_package = None, wipe_data = False, wipe_cache = False\<rparr>"

definition parse_options :: "string list \<Rightarrow> world \<Rightarrow> error + options \<times> world" where
  "parse_options argv w =
     (case getopt_long (drop 1 argv) of
        Inl e \<Rightarrow> Inl e
      | Inr rs \<Rightarrow> Inr (foldl (\<lambda>st r. switch_arg r st) (no_options, w) rs))"

text \<open>
  The collaborators of \<^verbatim>\<open>main\<close> are outside this file. They are given by what they
  return: the status of \<^verbatim>\<open>install_package\<close> on a path, the value of
  \<^verbatim>\<open>format_root_device\<close> on a root, the value of \<^verbatim>\<open>register_update_commands\<close>, the
  selections of the operator in the menu (each with the value \<^verbatim>\<open>reboot_options\<close> returns if
  it is called then), and whether \<^verbatim>\<open>maybe_install_firmware_update\<close> reboots. What they do
  to the files is not followed.
\<close>

record collaborators =
  install_package :: "string \<Rightarrow> int"
  format_root_device :: "string \<Rightarrow> int"
  register_update_commands :: int
  selections :: "(nat \<times> int) list"
  firmware_update_reboots :: bool

text \<open>
  Modelled from the spec: install.h, which declares the values of the status, is not among
  the sources. The two terminal statuses of section 4.3, success and error, are two distinct
  integers; \<^verbatim>\<open>main\<close> only compares the status with the first.
\<close>

definition INSTALL_SUCCESS :: int where
  "INSTALL_SUCCESS = 0"

definition INSTALL_ERROR :: int where
  "INSTALL_ERROR = 1"

definition erase_root :: "collaborators \<Rightarrow> string \<Rightarrow> world \<Rightarrow> int \<times> world" where
  "erase_root c root w =
     (format_root_device c root,
      emit (Format_root_device root)
        (emit (Ui_print (''Formatting '' @ root @ ''..''))
           (emit Ui_show_indeterminate_progress
              (emit (Ui_set_background BACKGROUND_ICON_INSTALLING) w))))"

text \<open>The statement of \<^verbatim>\<open>main\<close> that carries out the command and sets \<^verbatim>\<open>status\<close>.\<close>

definition run_command :: "collaborators \<Rightarrow> options \<Rightarrow> world \<Rightarrow> int \<times> world" where
  "run_command c opts w =
     (case update_package opts of
        Some package \<Rightarrow>
          (let st = install_package c package;
               w1 = emit (Install_package package) w
           in (st, if st \<noteq> INSTALL_SUCCESS
                   then emit (Ui_print (''Installation aborted.'' @ [LF])) w1 else w1))
      | None \<Rightarrow>
          if wipe_data opts \<or> wipe_cache opts then
            (case (if wipe_data opts
                   then (case erase_root c ''DATA:'' w of
                           (r, w1) \<Rightarrow> (if r \<noteq> 0 then INSTALL_ERROR else INSTALL_SUCCESS, w1))
                   else (INSTALL_SUCCESS, w)) of
               (st1, w1) \<Rightarrow>
                 (case (if wipe_cache opts
                        then (case erase_root c ''CACHE:'' w1 of
                                (r, w2) \<Rightarrow> (if r \<noteq> 0 then INSTALL_ERROR else st1, w2))
                        else (st1, w1)) of
                    (st2, w2) \<Rightarrow>
                      (st2, if st2 \<noteq> INSTALL_SUCCESS
                            then emit (Ui_print (''Data wipe failed.'' @ [LF])) w2 else w2)))
          else (INSTALL_ERROR, w))"

definition ITEM_REBOOT :: nat where
  "ITEM_REBOOT = 0"

definition ITEM_CONSOLE :: nat where
  "ITEM_CONSOLE = 7"

text \<open>
  \<^verbatim>\<open>prompt_and_wait\<close> on the selections the operator still makes. Every round starts with
  \<^verbatim>\<open>finish_recovery(NULL)\<close>. The result is the new value of \<^verbatim>\<open>do_reboot\<close> when the
  function returns, and \<open>None\<close> when the selections end before it does: the menu waits for a
  key. The entries other than the first and the last call menus of their own, which come back
  to the loop. Those menus and \<^verbatim>\<open>reboot_options\<close> are not followed inside: each stands in
  the trace as one event, for all it shows, asks, erases and runs.
\<close>

fun prompt_and_wait :: "(nat \<times> int) list \<Rightarrow> world \<Rightarrow> int option \<times> world" where
  "prompt_and_wait [] w =
     (None, emit Get_menu_selection (emit Ui_reset_progress (finish_recovery None w)))"
| "prompt_and_wait ((chosen_item, reboot) # later) w =
     (let w1 = emit Get_menu_selection (emit Ui_reset_progress (finish_recovery None w))
      in if chosen_item = ITEM_REBOOT then
           (if reboot \<noteq> 0 then (Some reboot, emit Reboot_options w1)
            else prompt_and_wait later (emit Reboot_options w1))
         else if chosen_item = ITEM_CONSOLE then
           (Some 0,
            emit (System ''echo 1 > /sys/class/leds/keyboard-backlight/brightness'')
              (emit Gr_exit (emit (Ui_print [LF]) w1)))
         else if chosen_item < ITEM_CONSOLE then prompt_and_wait later (emit (Menu_item chosen_item) w1)
         else prompt_and_wait later w1)"

datatype outcome = Reboots reboot_mode | Firmware_update | Exits | Waits_for_key

text \<open>
  \<^verbatim>\<open>main\<close> from the status on: the error icon, the three mounts, the menu when the status
  is not \<^verbatim>\<open>INSTALL_SUCCESS\<close>, then the firmware update, \<^verbatim>\<open>finish_recovery\<close> and the
  reboot. \<^verbatim>\<open>do_reboot\<close> starts as 1.
\<close>

definition leave :: "collaborators \<Rightarrow> options \<Rightarrow> int \<Rightarrow> world \<Rightarrow> outcome \<times> world" where
  "leave c opts do_reboot w =
     (let w1 = emit (Maybe_install_firmware_update (send_intent opts)) w
      in if firmware_update_reboots c then (Firmware_update, w1)
         else let w2 = emit Sync (finish_recovery (send_intent opts) w1)
              in if do_reboot \<noteq> 0
                 then let w3 = emit Sync (emit (Ui_print (''Rebooting...'' @ [LF])) w2)
                      in if do_reboot = 2 then (Reboots RB_POWER_OFF, emit (Reboot RB_POWER_OFF) w3)
                         else (Reboots RB_AUTOBOOT, emit (Reboot RB_AUTOBOOT) w3)
                 else (Exits, w2))"

definition after_command :: "collaborators \<Rightarrow> options \<Rightarrow> int \<Rightarrow> world \<Rightarrow> outcome \<times> world" where
  "after_command c opts st w =
     (let w1 = (if st \<noteq> INSTALL_SUCCESS then emit (Ui_set_background BACKGROUND_ICON_ERROR) w
                else w);
          w2 = emit (Ensure_root_path_mounted ''SDCARD:'')
                 (emit (Ensure_root_path_mounted ''DATA:'')
                    (emit (Ensure_root_path_mounted ''SYSTEM:'')
                       (emit (System ''echo 0 > /sys/class/leds/keyboard-backlight/brightness'')
                          w1)))
      in if st \<noteq> INSTALL_SUCCESS
         then (case prompt_and_wait (selections c) w2 of
                 (None, w3) \<Rightarrow> (Waits_for_key, w3)
               | (Some do_reboot, w3) \<Rightarrow> leave c opts do_reboot w3)
         else leave c opts 1 w2)"

definition main :: "collaborators \<Rightarrow> string list \<Rightarrow> world \<Rightarrow> error + outcome \<times> world" where
  "main c argv w =
     (case get_args argv w of
        Inl e \<Rightarrow> Inl e
      | Inr (argv1, w1) \<Rightarrow>
          (case parse_options argv1 w1 of
             Inl e \<Rightarrow> Inl e
           | Inr (opts, w2) \<Rightarrow>
               (let w3 = (if register_update_commands c \<noteq> 0
                          then emit (LOGE Cant_install_update_commands) w2 else w2)
                in case run_command c opts w3 of
                     (st, w4) \<Rightarrow> Inr (after_command c opts st w4))))"

text \<open>The blocks handed to \<^verbatim>\<open>set_bootloader_message\<close>, in order.\<close>

primrec blocks :: "event list \<Rightarrow> bootloader_message list" where
  "blocks [] = []"
| "blocks (e # es) = (case e of Set_bootloader_message b \<Rightarrow> b # blocks es | _ \<Rightarrow> blocks es)"

section \<open>Auxiliary notions\<close>

text \<open>
  The events that are log lines, those among them that do not report a bad boot message, and
  a world with more events behind its trace.
\<close>

definition is_log :: "event \<Rightarrow> bool" where
  "is_log e = (case e of LOGI m \<Rightarrow> True | LOGW m \<Rightarrow> True | LOGE m \<Rightarrow> True | _ \<Rightarrow> False)"

definition plain :: "event \<Rightarrow> bool" where
  "plain e \<longleftrightarrow> is_log e \<and> e \<noteq> LOGE Bad_boot_message"

definition logged :: "world \<Rightarrow> event list \<Rightarrow> world" where
  "logged w ls = w\<lparr>trace := trace w @ ls\<rparr>"

text \<open>
  A world at rest: an erased control block, a healthy cache volume without files, an empty
  temporary log.
\<close>

definition idle :: world where
  "idle = \<lparr>bcb_store = zeroed, bcb_read_ok = True, bcb_write_ok = True, mount_ok = True,
            path_ok = True, fopen_w_ok = True, fwrite_ok = True, unlink_ok = True,
            files = (\<lambda>f. None), tmp_log = Some [], tmplog_offset = 0, trace = []\<rparr>"

text \<open>The vector a run of \<^verbatim>\<open>get_args\<close> returns, without the world.\<close>

definition resolved :: "error + string list \<times> world \<Rightarrow> error + string list" where
  "resolved r = (case r of Inl e \<Rightarrow> Inl e | Inr (argv, w) \<Rightarrow> Inr argv)"

text \<open>How often a bad boot message has been reported.\<close>

definition bad_boot_messages :: "world \<Rightarrow> nat" where
  "bad_boot_messages w = count_list (trace w) (LOGE Bad_boot_message)"

text \<open>The recovery field as \<^verbatim>\<open>get_args\<close> scans it: read, and terminated at its last byte.\<close>

definition scanned :: "world \<Rightarrow> string" where
  "scanned w = (recovery (fst (get_bootloader_message w)))[RECOVERY_SIZE - 1 := NUL]"

text \<open>
  Stored blocks and worlds to run the functions on: a block armed with \<open>--wipe_cache\<close>, a
  block whose recovery field does not start with the word \<open>recovery\<close>, a world with a
  command file, and one with both an armed block and a command file.
\<close>

definition wipe_cache_block :: bootloader_message where
  "wipe_cache_block = \<lparr>command = ''boot-recovery'', status = [],
                       recovery = ''recovery'' @ [LF] @ ''--wipe_cache'' @ [LF]\<rparr>"

definition garbage_block :: bootloader_message where
  "garbage_block = \<lparr>command = ''boot-recovery'', status = [],
                    recovery = ''garbage'' @ [LF] @ ''--wipe_cache'' @ [LF]\<rparr>"

definition with_command_file :: "string \<Rightarrow> world \<Rightarrow> world" where
  "with_command_file content w = w\<lparr>files := (files w)(COMMAND_FILE \<mapsto> content)\<rparr>"

definition busy :: world where
  "busy = with_command_file (''--wipe_data'' @ [LF]) (idle\<lparr>bcb_store := wipe_cache_block\<rparr>)"

text \<open>The content of the durable log, empty while the file is missing.\<close>

definition log_content :: "world \<Rightarrow> string" where
  "log_content w = (case files w LOG_FILE of None \<Rightarrow> [] | Some c \<Rightarrow> c)"

text \<open>How often the command file could not be unlinked.\<close>

definition unlink_warnings :: "world \<Rightarrow> nat" where
  "unlink_warnings w = count_list (trace w) (LOGW (Cant_unlink COMMAND_FILE))"

text \<open>The lines logged with \<^verbatim>\<open>LOGE\<close>.\<close>

definition is_LOGE :: "event \<Rightarrow> bool" where
  "is_LOGE e = (case e of LOGE m \<Rightarrow> True | _ \<Rightarrow> False)"

text \<open>
  Where \<^verbatim>\<open>tmplog_offset\<close> stands behind a call of \<^verbatim>\<open>finish_recovery\<close>: at the end of
  the temporary log when both logs could be opened (it stays when it was behind the end), and
  where it was otherwise.
\<close>

definition offset_after :: "world \<Rightarrow> nat" where
  "offset_after w =
     (case tmp_log w of
        None \<Rightarrow> tmplog_offset w
      | Some t \<Rightarrow> if mount_ok w \<and> path_ok w \<and> fopen_w_ok w
                  then max (tmplog_offset w) (length t) else tmplog_offset w)"

text \<open>
  The events \<^verbatim>\<open>finish_recovery\<close> leaves in the trace: log lines, the block it hands to
  \<^verbatim>\<open>set_bootloader_message\<close>, and \<^verbatim>\<open>sync\<close>.
\<close>

definition retiring :: "event \<Rightarrow> bool" where
  "retiring e = (case e of LOGI m \<Rightarrow> True | LOGW m \<Rightarrow> True | LOGE m \<Rightarrow> True
                 | Set_bootloader_message b \<Rightarrow> True | Sync \<Rightarrow> True | _ \<Rightarrow> False)"

text \<open>The installs and erases among the events, in order.\<close>

primrec operations :: "event list \<Rightarrow> event list" where
  "operations [] = []"
| "operations (e # es) =
     (case e of Install_package p \<Rightarrow> e # operations es
              | Format_root_device r \<Rightarrow> e # operations es
              | _ \<Rightarrow> operations es)"

text \<open>The events of one call of \<^verbatim>\<open>erase_root\<close>.\<close>

definition erase_events :: "string \<Rightarrow> event list" where
  "erase_events root =
     [Ui_set_background BACKGROUND_ICON_INSTALLING, Ui_show_indeterminate_progress,
      Ui_print (''Formatting '' @ root @ ''..''), Format_root_device root]"

text \<open>
  Collaborators for running \<^verbatim>\<open>main\<close>: every install succeeds, the data partition cannot
  be formatted, the cache partition can, and the operator selects nothing.
\<close>

definition data_fails :: collaborators where
  "data_fails = \<lparr>install_package = (\<lambda>p. 0),
                 format_root_device = (\<lambda>r. if r = ''DATA:'' then 1 else 0),
                 register_update_commands = 0, selections = [],
                 firmware_update_reboots = False\<rparr>"

section \<open>Strings and buffers\<close>

lemma cstr_no_NUL: "NUL \<notin> set (cstr s)"
  by (auto simp: cstr_def dest: set_takeWhileD)

lemma cstr_idem: "NUL \<notin> set s \<Longrightarrow> cstr s = s"
  by (auto simp: cstr_def)

lemma cstr_append_NUL: "NUL \<notin> set xs \<Longrightarrow> cstr (xs @ NUL # ys) = xs"
  by (auto simp: cstr_def takeWhile_tail)

lemma cstr_take: "length (cstr s) \<le> n \<Longrightarrow> cstr (take n s) = cstr s"
  unfolding cstr_def
  by (induction s arbitrary: n) (auto simp: take_Cons split: nat.splits if_splits)

lemma length_cstr_le: "length (cstr s) \<le> length s"
  by (simp add: cstr_def length_takeWhile_le)

lemma cstr_decomp: "length (cstr s) < length s \<Longrightarrow> s = cstr s @ NUL # drop (length (cstr s) + 1) s"
  unfolding cstr_def
  by (induction s) auto

lemma length_strlcpy: "siz \<le> length dst \<Longrightarrow> length (strlcpy dst src siz) = length dst"
  by (auto simp: strlcpy_def Let_def min_def)

lemma cstr_strlcpy: "0 < siz \<Longrightarrow> cstr (strlcpy dst src siz) = take (siz - 1) (cstr src)"
proof -
  assume "0 < siz"
  have "NUL \<notin> set (take (min (length (cstr src)) (siz - 1)) (cstr src))"
    using cstr_no_NUL by (meson in_set_takeD)
  then show ?thesis using \<open>0 < siz\<close>
    by (simp add: strlcpy_def Let_def cstr_append_NUL min_def)
qed

lemma length_strlcat: "siz \<le> length dst \<Longrightarrow> length (strlcat dst src siz) = length dst"
proof -
  assume a: "siz \<le> length dst"
  have "length (cstr (take siz dst)) \<le> siz"
    using length_cstr_le[of "take siz dst"] a by simp
  then show ?thesis using a
    by (auto simp: strlcat_def Let_def min_def)
qed

lemma cstr_strlcat:
  assumes "length (cstr dst) < siz"
  shows "cstr (strlcat dst src siz) = take (siz - 1) (cstr dst @ cstr src)"
proof -
  have d: "cstr (take siz dst) = cstr dst"
    using assms by (simp add: cstr_take)
  have td: "take (length (cstr dst)) dst = cstr dst"
    unfolding cstr_def by (induction dst) auto
  have n: "NUL \<notin> set (cstr dst @ take k (cstr src))" for k
    using cstr_no_NUL by (auto dest: in_set_takeD)
  show ?thesis using assms n
    by (simp add: strlcat_def Let_def d td cstr_append_NUL[simplified] min_def del: append_assoc add: append_assoc[symmetric])
qed

lemma take_take_append: "take n (take n xs @ ys) = take n (xs @ ys)"
  by (induction xs arbitrary: n) (auto simp: take_Cons split: nat.splits)

lemma strlcat_args_cstr:
  assumes "length (cstr buf) < RECOVERY_SIZE"
  shows "cstr (strlcat_args buf as) =
         take (RECOVERY_SIZE - 1) (cstr buf @ concat (map (\<lambda>a. cstr a @ [LF]) as))"
  using assms
proof (induction as arbitrary: buf)
  case Nil
  then show ?case by simp
next
  case (Cons a as)
  let ?b1 = "strlcat buf a RECOVERY_SIZE"
  let ?b2 = "strlcat ?b1 [LF] RECOVERY_SIZE"
  have n: "0 < RECOVERY_SIZE" by (simp add: RECOVERY_SIZE_def)
  have c1: "cstr ?b1 = take (RECOVERY_SIZE - 1) (cstr buf @ cstr a)"
    using Cons.prems by (rule cstr_strlcat)
  then have l1: "length (cstr ?b1) < RECOVERY_SIZE" using n by simp
  have lf: "cstr [LF] = [LF]" by (simp add: cstr_def)
  have "cstr ?b2 = take (RECOVERY_SIZE - 1) (cstr ?b1 @ cstr [LF])"
    using l1 by (rule cstr_strlcat)
  also have "\<dots> = take (RECOVERY_SIZE - 1) (take (RECOVERY_SIZE - 1) (cstr buf @ cstr a) @ [LF])"
    by (simp only: c1 lf)
  also have "\<dots> = take (RECOVERY_SIZE - 1) ((cstr buf @ cstr a) @ [LF])"
    by (rule take_take_append)
  finally have c2: "cstr ?b2 = take (RECOVERY_SIZE - 1) ((cstr buf @ cstr a) @ [LF])" .
  then have l2: "length (cstr ?b2) < RECOVERY_SIZE" using n by simp
  have "cstr (strlcat_args buf (a # as)) = cstr (strlcat_args ?b2 as)" by simp
  also have "\<dots> = take (RECOVERY_SIZE - 1) (cstr ?b2 @ concat (map (\<lambda>a. cstr a @ [LF]) as))"
    using l2 by (rule Cons.IH)
  also have "\<dots> = take (RECOVERY_SIZE - 1)
      (((cstr buf @ cstr a) @ [LF]) @ concat (map (\<lambda>a. cstr a @ [LF]) as))"
    by (simp only: c2 take_take_append)
  finally show ?case by (simp del: take_append)
qed

lemma length_strlcat_args:
  "RECOVERY_SIZE \<le> length buf \<Longrightarrow> length (strlcat_args buf as) = length buf"
  by (induction as arbitrary: buf) (simp_all add: length_strlcat)

section \<open>What get_args leaves behind\<close>

lemma logged_Nil: "logged w [] = w"
  by (simp add: logged_def)

lemma logged_logged: "logged (logged w xs) ys = logged w (xs @ ys)"
  by (simp add: logged_def)

lemma emit_logged: "emit e w = logged w [e]"
  by (simp add: emit_def logged_def)

lemma blocks_append: "blocks (xs @ ys) = blocks xs @ blocks ys"
  by (induction xs) (auto split: event.splits)

lemma blocks_logs: "\<forall>e\<in>set ls. is_log e \<Longrightarrow> blocks ls = []"
  by (induction ls) (auto simp: is_log_def split: event.splits)

lemma length_sized: "length (sized n bs) = n"
  by (simp add: sized_def)

lemma get_bootloader_message_sizes:
  "length (command (fst (get_bootloader_message w))) = COMMAND_SIZE"
  "length (status (fst (get_bootloader_message w))) = STATUS_SIZE"
  "length (recovery (fst (get_bootloader_message w))) = RECOVERY_SIZE"
  by (simp_all add: get_bootloader_message_def as_struct_def zeroed_def length_sized)

lemma get_bootloader_message_logged:
  "\<exists>ls. (\<forall>e\<in>set ls. plain e) \<and> snd (get_bootloader_message w) = logged w ls"
proof (cases "bcb_read_ok w")
  case True
  then have "snd (get_bootloader_message w) = logged w []"
    by (simp add: get_bootloader_message_def logged_Nil)
  then show ?thesis by (intro exI[of _ "[]"]) simp
next
  case False
  then have "snd (get_bootloader_message w) = logged w [LOGE Cant_read_boot_message]"
    by (simp add: get_bootloader_message_def emit_logged)
  moreover have "\<forall>e\<in>set [LOGE Cant_read_boot_message]. plain e" by (simp add: plain_def is_log_def)
  ultimately show ?thesis by blast
qed

lemma log_boot_fields_logged:
  "\<exists>ls. (\<forall>e\<in>set ls. plain e) \<and> log_boot_fields boot w = logged w ls"
proof -
  have "log_boot_fields boot w = logged w
     ((if \<not> unset (command boot ! 0) then [LOGI Boot_command] else []) @
      (if \<not> unset (status boot ! 0) then [LOGI Boot_status] else []))"
    by (simp add: log_boot_fields_def Let_def emit_logged logged_logged logged_Nil)
  moreover have "\<forall>e\<in>set ((if \<not> unset (command boot ! 0) then [LOGI Boot_command] else []) @
      (if \<not> unset (status boot ! 0) then [LOGI Boot_status] else [])). plain e"
    by (auto simp: plain_def is_log_def)
  ultimately show ?thesis by blast
qed

lemma args_from_boot_message_logged:
  "\<exists>ls. (\<forall>e\<in>set ls. is_log e) \<and> snd (args_from_boot_message boot argv w) = logged w ls"
proof -
  have a: "\<forall>e\<in>set [LOGI Got_arguments_from_boot_message]. is_log e"
    and b: "\<forall>e\<in>set [LOGE Bad_boot_message]. is_log e"
    and c: "\<forall>e\<in>set []. is_log e"
    by (simp_all add: is_log_def)
  have "snd (args_from_boot_message boot argv w) = logged w [LOGI Got_arguments_from_boot_message]
      \<or> snd (args_from_boot_message boot argv w) = logged w [LOGE Bad_boot_message]
      \<or> snd (args_from_boot_message boot argv w) = logged w []"
    by (simp add: args_from_boot_message_def Let_def emit_logged logged_Nil split: option.splits prod.splits)
  with a b c show ?thesis by blast
qed

lemma fopen_read_logged:
  "\<exists>ls. (\<forall>e\<in>set ls. plain e) \<and> snd (fopen_root_path f Read w) = logged w ls"
proof -
  have a: "\<forall>e\<in>set [LOGE (Cant_mount f)]. plain e"
    and b: "\<forall>e\<in>set [LOGE (Bad_path f)]. plain e"
    and c: "\<forall>e\<in>set []. plain e"
    by (simp_all add: plain_def is_log_def)
  have "snd (fopen_root_path f Read w) = logged w [LOGE (Cant_mount f)]
      \<or> snd (fopen_root_path f Read w) = logged w [LOGE (Bad_path f)]
      \<or> snd (fopen_root_path f Read w) = logged w []"
    by (simp add: fopen_root_path_def emit_logged logged_Nil)
  with a b c show ?thesis by blast
qed

lemma args_from_command_file_logged:
  assumes "args_from_command_file argv w = Inr (argv', w')"
  shows "\<exists>ls. (\<forall>e\<in>set ls. plain e) \<and> w' = logged w ls"
proof -
  obtain ls where ls: "\<forall>e\<in>set ls. plain e" "snd (fopen_root_path COMMAND_FILE Read w) = logged w ls"
    using fopen_read_logged by blast
  have "w' = logged w [] \<or> w' = logged w ls \<or> w' = logged w (ls @ [LOGI (Got_arguments_from COMMAND_FILE)])"
    using assms ls(2)
    by (auto simp: args_from_command_file_def check_and_fclose_def emit_logged logged_logged logged_Nil
             split: prod.splits option.splits sum.splits if_splits)
  moreover have "\<forall>e\<in>set (ls @ [LOGI (Got_arguments_from COMMAND_FILE)]). plain e"
    using ls(1) by (simp add: plain_def is_log_def)
  moreover have "\<forall>e\<in>set []. plain e" by simp
  ultimately show ?thesis using ls(1) by blast
qed

lemma length_foldl_update: "length (foldl (\<lambda>b p. b[p := c]) buf ps) = length buf"
  by (induction ps arbitrary: buf) simp_all

lemma boot_after_scan_fields:
  "command (boot_after_scan boot argv) = command boot"
  "status (boot_after_scan boot argv) = status boot"
  "length (recovery (boot_after_scan boot argv)) = length (recovery boot)"
  by (simp_all add: boot_after_scan_def Let_def length_foldl_update)

lemma get_args_unfold:
  "get_args argv w =
     (case args_from_command_file
             (fst (args_from_boot_message (fst (get_bootloader_message w)) argv
                (log_boot_fields (fst (get_bootloader_message w)) (snd (get_bootloader_message w)))))
             (snd (args_from_boot_message (fst (get_bootloader_message w)) argv
                (log_boot_fields (fst (get_bootloader_message w)) (snd (get_bootloader_message w))))) of
        Inl e \<Rightarrow> Inl e
      | Inr r \<Rightarrow> Inr (fst r, set_bootloader_message
                       (write_back (boot_after_scan (fst (get_bootloader_message w)) argv) (fst r))
                       (snd r)))"
  by (simp add: get_args_def split_beta split: sum.splits)

lemma get_args_frame:
  assumes "get_args argv w = Inr (argv', w')"
  shows "\<exists>ls. (\<forall>e\<in>set ls. is_log e) \<and>
           w' = set_bootloader_message (write_back (boot_after_scan (fst (get_bootloader_message w)) argv) argv') (logged w ls)"
proof -
  define boot where "boot = fst (get_bootloader_message w)"
  define w1 where "w1 = snd (get_bootloader_message w)"
  define st where "st = args_from_boot_message boot argv (log_boot_fields boot w1)"
  obtain l1 where l1: "\<forall>e\<in>set l1. is_log e" "w1 = logged w l1"
    using get_bootloader_message_logged[of w] by (auto simp: w1_def plain_def)
  obtain l2 where l2: "\<forall>e\<in>set l2. is_log e" "log_boot_fields boot w1 = logged w1 l2"
    using log_boot_fields_logged[of boot w1] by (auto simp: plain_def)
  obtain l3 where l3: "\<forall>e\<in>set l3. is_log e" "snd st = logged (log_boot_fields boot w1) l3"
    unfolding st_def using args_from_boot_message_logged by blast
  have "get_args argv w = (case args_from_command_file (fst st) (snd st) of Inl e \<Rightarrow> Inl e
      | Inr r \<Rightarrow> Inr (fst r, set_bootloader_message (write_back (boot_after_scan boot argv) (fst r)) (snd r)))"
    unfolding get_args_unfold boot_def w1_def st_def ..
  then obtain w3 where r: "args_from_command_file (fst st) (snd st) = Inr (argv', w3)"
    and w': "w' = set_bootloader_message (write_back (boot_after_scan boot argv) argv') w3"
    using assms by (auto split: sum.splits)
  obtain l4 where l4: "\<forall>e\<in>set l4. is_log e" "w3 = logged (snd st) l4"
    using args_from_command_file_logged[OF r] by (auto simp: plain_def)
  have "w3 = logged (logged (log_boot_fields boot w1) l3) l4"
    by (simp only: l4(2) l3(2))
  also have "\<dots> = logged (logged (logged w1 l2) l3) l4"
    by (simp only: l2(2))
  also have "\<dots> = logged w (l1 @ l2 @ l3 @ l4)"
    by (simp only: l1(2) logged_logged append_assoc)
  finally have "w3 = logged w (l1 @ l2 @ l3 @ l4)" .
  moreover have "\<forall>e\<in>set (l1 @ l2 @ l3 @ l4). is_log e" using l1(1) l2(1) l3(1) l4(1) by auto
  ultimately show ?thesis using w' boot_def by blast
qed

lemma write_back_command: "cstr (command (write_back boot argv)) = ''boot-recovery''"
proof -
  have "cstr ''boot-recovery'' = ''boot-recovery''" by (simp add: cstr_def)
  then show ?thesis by (simp add: write_back_def cstr_strlcpy COMMAND_SIZE_def)
qed

lemma write_back_recovery:
  "cstr (recovery (write_back boot argv)) =
     take (RECOVERY_SIZE - 1) (''recovery'' @ [LF] @ concat (map (\<lambda>a. cstr a @ [LF]) (drop 1 argv)))"
proof -
  let ?b = "strlcpy (recovery boot) (''recovery'' @ [LF]) RECOVERY_SIZE"
  have lit: "cstr (''recovery'' @ [LF]) = ''recovery'' @ [LF]" by (simp add: cstr_def)
  have c: "cstr ?b = ''recovery'' @ [LF]"
    by (simp add: cstr_strlcpy RECOVERY_SIZE_def lit del: append.simps) 
  then have "length (cstr ?b) < RECOVERY_SIZE" by (simp add: RECOVERY_SIZE_def)
  then have s: "cstr (strlcat_args ?b (drop 1 argv)) =
      take (RECOVERY_SIZE - 1) (cstr ?b @ concat (map (\<lambda>a. cstr a @ [LF]) (drop 1 argv)))"
    by (rule strlcat_args_cstr)
  have wb: "recovery (write_back boot argv) = strlcat_args ?b (drop 1 argv)"
    by (simp add: write_back_def)
  have "cstr (recovery (write_back boot argv)) =
      take (RECOVERY_SIZE - 1) ((''recovery'' @ [LF]) @ concat (map (\<lambda>a. cstr a @ [LF]) (drop 1 argv)))"
    by (simp only: wb s c)
  then show ?thesis by (simp del: take_append)
qed

lemma strtok_subset: "strtok s d = Some (t, r) \<Longrightarrow> set t \<subseteq> set s \<and> set r \<subseteq> set s"
  by (auto simp: strtok_def Let_def split: if_splits dest!: set_takeWhileD set_dropWhileD in_set_dropD)

lemma boot_lines_subset: "a \<in> set (boot_lines k rest) \<Longrightarrow> set a \<subseteq> set rest"
proof (induction k arbitrary: rest)
  case 0
  then show ?case by simp
next
  case (Suc k)
  show ?case
  proof (cases "strtok rest [LF]")
    case None
    with Suc.prems show ?thesis by simp
  next
    case (Some p)
    obtain t r where p: "p = (t, r)" by (cases p)
    from strtok_subset Some p have s: "set t \<subseteq> set rest" "set r \<subseteq> set rest" by blast+
    from Suc.prems Some p have "a = t \<or> a \<in> set (boot_lines k r)" by simp
    then show ?thesis using s Suc.IH[of r] by blast
  qed
qed

lemma args_from_boot_message_c_strings:
  assumes "\<forall>a\<in>set argv. NUL \<notin> set a"
  shows "\<forall>a\<in>set (fst (args_from_boot_message boot argv w)). NUL \<notin> set a"
proof (cases "length argv \<le> 1")
  case False
  then show ?thesis using assms by (simp add: args_from_boot_message_def)
next
  case True
  let ?s = "cstr ((recovery boot)[RECOVERY_SIZE - 1 := NUL])"
  show ?thesis
  proof (cases "strtok ?s [LF]")
    case None
    then show ?thesis using assms True by (simp add: args_from_boot_message_def Let_def)
  next
    case (Some p)
    obtain t r where p: "p = (t, r)" by (cases p)
    show ?thesis
    proof (cases "t = ''recovery''")
      case False
      then show ?thesis using assms True Some p by (simp add: args_from_boot_message_def Let_def)
    next
      case t: True
      have r: "set r \<subseteq> set ?s" using strtok_subset Some p by blast
      have "fst (args_from_boot_message boot argv w) = ''recovery'' # boot_lines (MAX_ARGS - 1) r"
        using True Some p t by (simp add: args_from_boot_message_def Let_def)
      moreover have "NUL \<notin> set a" if "a \<in> set (boot_lines (MAX_ARGS - 1) r)" for a
        using boot_lines_subset[OF that] r cstr_no_NUL[of "(recovery boot)[RECOVERY_SIZE - 1 := NUL]"] by blast
      ultimately show ?thesis by auto
    qed
  qed
qed

lemma file_lines_c_strings: "file_lines k unread = Inr args \<Longrightarrow> a \<in> set args \<Longrightarrow> NUL \<notin> set a"
proof (induction k arbitrary: unread args)
  case 0
  then show ?case by simp
next
  case (Suc k)
  show ?case
  proof (cases "fgets MAX_ARG_LENGTH unread")
    case None
    with Suc.prems show ?thesis by simp
  next
    case (Some p)
    obtain buf u where p: "p = (buf, u)" by (cases p)
    from Suc.prems(1) Some p obtain t r args' where
      t: "strtok (cstr buf) [CR, LF] = Some (t, r)" and f: "file_lines k u = Inr args'"
      and a: "args = t # args'"
      by (auto split: option.splits sum.splits)
    have "NUL \<notin> set t" using strtok_subset[OF t] cstr_no_NUL[of buf] by blast
    then show ?thesis using Suc.prems(2) a Suc.IH[OF f] by auto
  qed
qed

lemma args_from_command_file_c_strings:
  assumes "args_from_command_file argv w = Inr (argv', w')" and "\<forall>a\<in>set argv. NUL \<notin> set a"
  shows "\<forall>a\<in>set argv'. NUL \<notin> set a"
proof -
  have z: "NUL \<notin> set (argv0 argv)" using assms(2) by (cases argv) (simp_all add: argv0_def)
  show ?thesis using assms z
    by (auto simp: args_from_command_file_def split: if_splits prod.splits option.splits sum.splits
             dest: file_lines_c_strings)
qed

lemma get_args_c_strings:
  assumes "get_args argv w = Inr (argv', w')" and "\<forall>a\<in>set argv. NUL \<notin> set a"
  shows "\<forall>a\<in>set argv'. NUL \<notin> set a"
proof -
  define boot where "boot = fst (get_bootloader_message w)"
  define st where "st = args_from_boot_message boot argv (log_boot_fields boot (snd (get_bootloader_message w)))"
  have "get_args argv w = (case args_from_command_file (fst st) (snd st) of Inl e \<Rightarrow> Inl e
      | Inr r \<Rightarrow> Inr (fst r, set_bootloader_message (write_back (boot_after_scan boot argv) (fst r)) (snd r)))"
    unfolding get_args_unfold boot_def st_def ..
  then obtain w3 where r: "args_from_command_file (fst st) (snd st) = Inr (argv', w3)"
    using assms(1) by (auto split: sum.splits)
  have "\<forall>a\<in>set (fst st). NUL \<notin> set a"
    unfolding st_def using assms(2) by (rule args_from_boot_message_c_strings)
  with r show ?thesis by (rule args_from_command_file_c_strings)
qed

lemma get_args_without_command_file:
  assumes "files w COMMAND_FILE = None"
  shows "\<exists>argv' w'. get_args argv w = Inr (argv', w')"
proof -
  define boot where "boot = fst (get_bootloader_message w)"
  define st where
    "st = args_from_boot_message boot argv (log_boot_fields boot (snd (get_bootloader_message w)))"
  obtain l1 where l1: "snd (get_bootloader_message w) = logged w l1"
    using get_bootloader_message_logged by blast
  obtain l2 where l2: "log_boot_fields boot (logged w l1) = logged (logged w l1) l2"
    using log_boot_fields_logged by blast
  obtain l3 where l3: "snd st = logged (logged (logged w l1) l2) l3"
    unfolding st_def l1 l2 using args_from_boot_message_logged by blast
  have "\<exists>w3. args_from_command_file (fst st) (snd st) = Inr (fst st, w3)"
    unfolding l3 using assms
    by (simp add: args_from_command_file_def fopen_root_path_def logged_def emit_def)
  then obtain w3 where "args_from_command_file (fst st) (snd st) = Inr (fst st, w3)" ..
  then have "get_args argv w =
      Inr (fst st, set_bootloader_message (write_back (boot_after_scan boot argv) (fst st)) w3)"
    unfolding get_args_unfold boot_def st_def by simp
  then show ?thesis by blast
qed

section \<open>Which source decides\<close>

lemma resolved_simps [simp]: "resolved (Inl e) = Inl e" "resolved (Inr (v, w)) = Inr v"
  by (simp_all add: resolved_def)

lemma args_from_boot_message_vector:
  "fst (args_from_boot_message boot argv (logged w ls)) = fst (args_from_boot_message boot argv w)"
  by (simp add: args_from_boot_message_def Let_def split: option.splits)

lemma args_from_command_file_resolved:
  "resolved (args_from_command_file v (logged w ls)) = resolved (args_from_command_file v w)"
  by (simp add: args_from_command_file_def fopen_root_path_def logged_def emit_def
           split: option.splits sum.splits)

lemma resolved_case:
  "resolved (case r of Inl e \<Rightarrow> Inl e | Inr p \<Rightarrow> Inr (fst p, f p)) = resolved r"
  by (simp add: resolved_def split: sum.splits prod.splits)

lemma resolved_get_args:
  "resolved (get_args argv w) =
     resolved (args_from_command_file
       (fst (args_from_boot_message (fst (get_bootloader_message w)) argv w)) w)"
proof -
  define boot where "boot = fst (get_bootloader_message w)"
  obtain l1 where l1: "snd (get_bootloader_message w) = logged w l1"
    using get_bootloader_message_logged by blast
  obtain l2 where l2: "log_boot_fields boot (logged w l1) = logged (logged w l1) l2"
    using log_boot_fields_logged by blast
  define st where "st = args_from_boot_message boot argv (logged w (l1 @ l2))"
  obtain l3 where l3: "snd st = logged (logged w (l1 @ l2)) l3"
    unfolding st_def using args_from_boot_message_logged by blast
  have "resolved (get_args argv w) = resolved (args_from_command_file (fst st) (snd st))"
    unfolding get_args_unfold boot_def[symmetric] l1 l2 logged_logged st_def[symmetric]
    by (rule resolved_case)
  also have "\<dots> = resolved (args_from_command_file (fst st) w)"
    unfolding l3 logged_logged by (rule args_from_command_file_resolved)
  also have "fst st = fst (args_from_boot_message boot argv w)"
    unfolding st_def by (rule args_from_boot_message_vector)
  finally show ?thesis unfolding boot_def .
qed

lemma cstr_take_eq: "cstr (take n s) = take n (cstr s)"
  unfolding cstr_def
  by (induction s arbitrary: n) (auto simp: take_Cons split: nat.splits)

lemma cstr_append_replicate_NUL: "cstr (s @ replicate k NUL) = cstr s"
  unfolding cstr_def by (induction s) (auto simp: takeWhile_replicate)

lemma cstr_update_NUL: "i < length s \<Longrightarrow> cstr (s[i := NUL]) = take i (cstr s)"
  unfolding cstr_def
  by (induction s arbitrary: i) (auto simp: take_Cons split: nat.splits)

lemma cstr_sized: "cstr (sized n s) = take n (cstr s)"
  by (simp add: sized_def cstr_append_replicate_NUL cstr_take_eq)

lemma scanned_string:
  assumes "bcb_read_ok w"
  shows "cstr ((recovery (fst (get_bootloader_message w)))[RECOVERY_SIZE - 1 := NUL]) =
         take (RECOVERY_SIZE - 1) (cstr (recovery (bcb_store w)))"
proof -
  have r: "recovery (fst (get_bootloader_message w)) = sized RECOVERY_SIZE (recovery (bcb_store w))"
    using assms by (simp add: get_bootloader_message_def as_struct_def)
  have "RECOVERY_SIZE - 1 < length (sized RECOVERY_SIZE (recovery (bcb_store w)))"
    by (simp add: length_sized RECOVERY_SIZE_def)
  then show ?thesis unfolding r by (simp add: cstr_update_NUL cstr_sized)
qed

lemma scanned_first_byte:
  assumes "bcb_read_ok w"
  shows "(recovery (fst (get_bootloader_message w)))[RECOVERY_SIZE - 1 := NUL] ! 0 =
         (case recovery (bcb_store w) of [] \<Rightarrow> NUL | c # cs \<Rightarrow> c)"
proof -
  have r: "recovery (fst (get_bootloader_message w)) = sized RECOVERY_SIZE (recovery (bcb_store w))"
    using assms by (simp add: get_bootloader_message_def as_struct_def)
  show ?thesis unfolding r
    by (cases "recovery (bcb_store w)") (simp_all add: sized_def RECOVERY_SIZE_def nth_append)
qed

lemma strtok_line:
  assumes "LF \<notin> set a" and "a \<noteq> []"
  shows "strtok (a @ LF # rest) [LF] = Some (a, rest)"
proof -
  have d: "dropWhile (\<lambda>c. c \<in> set [LF]) (a @ LF # rest) = a @ LF # rest"
    using assms by (cases a) auto
  have t: "takeWhile (\<lambda>c. c \<notin> set [LF]) (a @ LF # rest) = a"
    using assms(1) by (induction a) auto
  have r: "dropWhile (\<lambda>c. c \<notin> set [LF]) (a @ LF # rest) = LF # rest"
    using assms(1) by (induction a) auto
  show ?thesis unfolding strtok_def Let_def d t r using assms(2) by simp
qed

lemma strtok_empty: "strtok [] d = None"
  by (simp add: strtok_def)

lemma boot_lines_serialized:
  assumes "\<forall>a\<in>set args. a \<noteq> [] \<and> LF \<notin> set a"
  shows "boot_lines k (concat (map (\<lambda>a. a @ [LF]) args)) = take k args"
  using assms
proof (induction k arbitrary: args)
  case 0
  then show ?case by simp
next
  case (Suc k)
  show ?case
  proof (cases args)
    case Nil
    then show ?thesis by (simp add: strtok_empty)
  next
    case (Cons a as)
    then have "strtok (concat (map (\<lambda>a. a @ [LF]) args)) [LF] =
        Some (a, concat (map (\<lambda>a. a @ [LF]) as))"
      using Suc.prems strtok_line[of a] by simp
    then show ?thesis using Cons Suc by simp
  qed
qed

lemma args_from_armed_block:
  assumes "length argv \<le> 1" and "bcb_read_ok w"
    and "take (RECOVERY_SIZE - 1) (cstr (recovery (bcb_store w))) = ''recovery'' @ LF # rest"
  shows "args_from_boot_message (fst (get_bootloader_message w)) argv w' =
           (''recovery'' # boot_lines (MAX_ARGS - 1) rest,
            emit (LOGI Got_arguments_from_boot_message) w')"
proof -
  have "strtok (''recovery'' @ LF # rest) [LF] = Some (''recovery'', rest)"
    by (rule strtok_line) simp_all
  then show ?thesis
    using assms(1) unfolding args_from_boot_message_def Let_def scanned_string[OF assms(2)] assms(3)
    by simp
qed

lemma bad_logged:
  "bad_boot_messages (logged w ls) = bad_boot_messages w + count_list ls (LOGE Bad_boot_message)"
  by (simp add: bad_boot_messages_def logged_def)

lemma count_plain: "\<forall>e\<in>set ls. plain e \<Longrightarrow> count_list ls (LOGE Bad_boot_message) = 0"
  by (induction ls) (auto simp: plain_def)

lemma bad_set_bootloader_message:
  "bad_boot_messages (set_bootloader_message b w) = bad_boot_messages w"
  by (simp add: bad_boot_messages_def set_bootloader_message_def Let_def emit_def)

lemma bad_args_from_boot_message:
  "bad_boot_messages (snd (args_from_boot_message boot argv (logged w ls))) =
     bad_boot_messages (snd (args_from_boot_message boot argv w)) + count_list ls (LOGE Bad_boot_message)"
  by (simp add: args_from_boot_message_def Let_def bad_boot_messages_def logged_def emit_def
           split: option.splits)

lemma get_args_bad_boot_messages:
  assumes "get_args argv w = Inr (argv', w')"
  shows "bad_boot_messages w' =
         bad_boot_messages (snd (args_from_boot_message (fst (get_bootloader_message w)) argv w))"
proof -
  define boot where "boot = fst (get_bootloader_message w)"
  obtain l1 where l1: "\<forall>e\<in>set l1. plain e" "snd (get_bootloader_message w) = logged w l1"
    using get_bootloader_message_logged by blast
  obtain l2 where l2: "\<forall>e\<in>set l2. plain e" "log_boot_fields boot (logged w l1) = logged (logged w l1) l2"
    using log_boot_fields_logged by blast
  define st where "st = args_from_boot_message boot argv (logged w (l1 @ l2))"
  have "get_args argv w = (case args_from_command_file (fst st) (snd st) of Inl e \<Rightarrow> Inl e
      | Inr r \<Rightarrow> Inr (fst r, set_bootloader_message (write_back (boot_after_scan boot argv) (fst r)) (snd r)))"
    unfolding get_args_unfold boot_def[symmetric] l1(2) l2(2) logged_logged st_def ..
  then obtain w3 where r: "args_from_command_file (fst st) (snd st) = Inr (argv', w3)"
    and w': "w' = set_bootloader_message (write_back (boot_after_scan boot argv) argv') w3"
    using assms by (auto split: sum.splits)
  obtain l4 where l4: "\<forall>e\<in>set l4. plain e" "w3 = logged (snd st) l4"
    using args_from_command_file_logged[OF r] by blast
  have "bad_boot_messages w' = bad_boot_messages (snd st)"
    by (simp add: w' bad_set_bootloader_message l4(2) bad_logged count_plain[OF l4(1)])
  also have "\<dots> = bad_boot_messages (snd (args_from_boot_message boot argv w))"
    using l1(1) l2(1) by (simp add: st_def bad_args_from_boot_message count_plain)
  finally show ?thesis unfolding boot_def .
qed

lemma length_scanned: "length (scanned w) = RECOVERY_SIZE"
  by (simp add: scanned_def get_bootloader_message_sizes)

lemma args_from_unset_block:
  assumes "unset (scanned w ! 0)"
  shows "args_from_boot_message (fst (get_bootloader_message w)) argv w' = (argv, w')"
proof -
  obtain c cs where s: "scanned w = c # cs"
    using length_scanned[of w] by (cases "scanned w") (simp_all add: RECOVERY_SIZE_def)
  have u: "c = NUL \<or> c = CHR 0xFF" using assms s by (simp add: unset_def)
  have "strtok (cstr (scanned w)) [LF] = None \<or>
        (\<exists>t r. strtok (cstr (scanned w)) [LF] = Some (t, r) \<and> t \<noteq> ''recovery'')"
    using u unfolding s by (auto simp: strtok_def cstr_def Let_def)
  then show ?thesis
    using assms unfolding args_from_boot_message_def Let_def scanned_def[symmetric]
    by auto
qed

lemma args_from_garbage_block:
  assumes "length argv \<le> 1" and "\<not> unset (scanned w ! 0)"
    and "takeWhile (\<lambda>c. c \<noteq> LF) (cstr (scanned w)) \<noteq> []"
    and "takeWhile (\<lambda>c. c \<noteq> LF) (cstr (scanned w)) \<noteq> ''recovery''"
  shows "args_from_boot_message (fst (get_bootloader_message w)) argv w' =
           (argv, emit (LOGE Bad_boot_message) w')"
proof -
  let ?s = "cstr (scanned w)"
  from assms(3) obtain c cs where s: "?s = c # cs" and c: "c \<noteq> LF"
    by (cases ?s) (auto split: if_splits)
  have "strtok ?s [LF] = Some (takeWhile (\<lambda>c. c \<noteq> LF) ?s, drop 1 (dropWhile (\<lambda>c. c \<noteq> LF) ?s))"
    unfolding s using c by (simp add: strtok_def)
  then show ?thesis
    using assms unfolding args_from_boot_message_def Let_def scanned_def[symmetric]
    by simp
qed

lemma resolved_from_armed_block:
  assumes "length argv \<le> 1" and "bcb_read_ok w"
    and "take (RECOVERY_SIZE - 1) (cstr (recovery (bcb_store w))) =
           ''recovery'' @ LF # concat (map (\<lambda>a. a @ [LF]) args)"
    and "\<forall>a\<in>set args. a \<noteq> [] \<and> LF \<notin> set a" and "args \<noteq> []"
  shows "resolved (get_args argv w) = Inr (''recovery'' # take (MAX_ARGS - 1) args)"
proof -
  have "args_from_boot_message (fst (get_bootloader_message w)) argv w =
      (''recovery'' # take (MAX_ARGS - 1) args, emit (LOGI Got_arguments_from_boot_message) w)"
    using args_from_armed_block[OF assms(1,2,3)] boot_lines_serialized[OF assms(4)] by simp
  moreover have "\<not> length (''recovery'' # take (MAX_ARGS - 1) args) \<le> 1"
    using assms(5) by (cases args) (simp_all add: MAX_ARGS_def)
  ultimately show ?thesis
    unfolding resolved_get_args args_from_command_file_def by (simp del: length_take take_eq_Nil)
qed

lemma stored_block:
  assumes "get_args argv w = Inr (argv', w')" and "bcb_write_ok w"
  shows "bcb_store w' = write_back (boot_after_scan (fst (get_bootloader_message w)) argv) argv'"
proof -
  obtain ls where "w' = set_bootloader_message (write_back (boot_after_scan (fst (get_bootloader_message w)) argv) argv') (logged w ls)"
    using get_args_frame[OF assms(1)] by blast
  then show ?thesis using assms(2)
    by (simp add: set_bootloader_message_def Let_def emit_def logged_def)
qed

lemma write_back_recovery_c_strings:
  assumes "\<forall>a\<in>set argv. NUL \<notin> set a"
  shows "cstr (recovery (write_back boot argv)) =
     take (RECOVERY_SIZE - 1) (''recovery'' @ LF # concat (map (\<lambda>a. a @ [LF]) (drop 1 argv)))"
proof -
  have "\<forall>a\<in>set (drop 1 argv). NUL \<notin> set a" using assms by (meson in_set_dropD)
  then have m: "map (\<lambda>a. cstr a @ [LF]) (drop 1 argv) = map (\<lambda>a. a @ [LF]) (drop 1 argv)"
    by (simp add: cstr_idem)
  show ?thesis unfolding write_back_recovery m by simp
qed

lemma get_args_explicit:
  "2 \<le> length argv \<Longrightarrow>
   get_args argv w =
     Inr (argv, set_bootloader_message (write_back (fst (get_bootloader_message w)) argv)
                  (log_boot_fields (fst (get_bootloader_message w)) (snd (get_bootloader_message w))))"
  by (simp add: get_args_unfold args_from_boot_message_def args_from_command_file_def
        boot_after_scan_def)

lemma boot_lines_pos:
  "0 < k \<Longrightarrow> boot_lines k rest =
     (case strtok rest [LF] of None \<Rightarrow> [] | Some (arg, rest') \<Rightarrow> arg # boot_lines (k - 1) rest')"
  by (cases k) (auto split: option.splits)

lemma idle_fields:
  "bcb_read_ok idle" "bcb_write_ok idle" "mount_ok idle" "path_ok idle"
  "files idle f = None" "bcb_store idle = zeroed" "trace idle = []"
  by (simp_all add: idle_def)

lemma get_args_keeps_flags:
  assumes "get_args argv w = Inr (argv', w')"
  shows "bcb_read_ok w' = bcb_read_ok w" and "bcb_write_ok w' = bcb_write_ok w"
    and "files w' = files w"
  using get_args_frame[OF assms]
  by (auto simp: set_bootloader_message_def Let_def emit_def logged_def split: if_splits)

lemma write_back_sizes:
  "COMMAND_SIZE \<le> length (command boot) \<Longrightarrow>
     length (command (write_back boot argv)) = length (command boot)"
  "RECOVERY_SIZE \<le> length (recovery boot) \<Longrightarrow>
     length (recovery (write_back boot argv)) = length (recovery boot)"
  "status (write_back boot argv) = status boot"
  by (simp_all add: write_back_def length_strlcpy length_strlcat_args)

lemma NUL_behind_cstr: "length (cstr s) < length s \<Longrightarrow> s ! length (cstr s) = NUL"
  using cstr_decomp[of s] by (metis nth_append_length)

lemma fgets_bytes_pos:
  "0 < k \<Longrightarrow> fgets_bytes k (c # cs) = (if c = LF then [c] else c # fgets_bytes (k - 1) cs)"
  "fgets_bytes k [] = []"
  by (cases k; simp)+

lemma file_lines_pos:
  "0 < k \<Longrightarrow> file_lines k unread =
     (case fgets MAX_ARG_LENGTH unread of
        None \<Rightarrow> Inr []
      | Some (buf, unread') \<Rightarrow>
          (case strtok (cstr buf) [CR, LF] of
             None \<Rightarrow> Inl Null_pointer_dereference
           | Some (arg, rest) \<Rightarrow>
               (case file_lines (k - 1) unread' of
                  Inl e \<Rightarrow> Inl e
                | Inr args \<Rightarrow> Inr (arg # args))))"
  by (cases k) (auto split: option.splits)

lemma wipe_data_line: "file_lines (MAX_ARGS - 1) (''--wipe_data'' @ [LF]) = Inr [''--wipe_data'']"
  by (simp add: MAX_ARGS_def MAX_ARG_LENGTH_def file_lines_pos fgets_def fgets_bytes_pos
        strtok_def cstr_def)

lemma busy_vector:
  "args_from_boot_message (fst (get_bootloader_message busy)) [''/sbin/recovery''] busy =
     ([''recovery'', ''--wipe_cache''], emit (LOGI Got_arguments_from_boot_message) busy)"
proof -
  have "take (RECOVERY_SIZE - 1) (cstr (recovery (bcb_store busy))) =
      ''recovery'' @ LF # ''--wipe_cache'' @ [LF]"
    by (simp add: busy_def with_command_file_def wipe_cache_block_def cstr_def RECOVERY_SIZE_def)
  moreover have "bcb_read_ok busy" by (simp add: busy_def with_command_file_def idle_def)
  moreover have "boot_lines (MAX_ARGS - 1) (''--wipe_cache'' @ [LF]) = [''--wipe_cache'']"
    using boot_lines_serialized[of "[''--wipe_cache'']" "MAX_ARGS - 1"] by (simp add: MAX_ARGS_def)
  ultimately show ?thesis
    using args_from_armed_block[of "[''/sbin/recovery'']" busy "''--wipe_cache'' @ [LF]" busy]
    by simp
qed

lemma scanned_idle: "scanned (with_command_file c idle) ! 0 = NUL"
  unfolding scanned_def
  by (subst scanned_first_byte)
     (simp_all add: with_command_file_def idle_def zeroed_def RECOVERY_SIZE_def replicate_Suc[symmetric]
        del: replicate_Suc replicate.simps, simp add: eval_nat_numeral)

lemma idle_vector:
  "args_from_boot_message (fst (get_bootloader_message (with_command_file c idle))) argv w = (argv, w)"
  by (rule args_from_unset_block) (simp add: scanned_idle unset_def)

lemma scanned_garbage:
  "cstr (scanned (idle\<lparr>bcb_store := garbage_block\<rparr>)) = ''garbage'' @ [LF] @ ''--wipe_cache'' @ [LF]"
  "scanned (idle\<lparr>bcb_store := garbage_block\<rparr>) ! 0 = CHR ''g''"
  unfolding scanned_def
  by (subst scanned_string scanned_first_byte;
      simp add: idle_def garbage_block_def cstr_def RECOVERY_SIZE_def)+

text \<open>A run of \<^verbatim>\<open>get_args\<close> ends without a vector only on a line of the command file that has no token.\<close>

lemma file_lines_error: "file_lines k unread = Inl e \<Longrightarrow> e = Null_pointer_dereference"
  by (induction k arbitrary: unread) (auto split: option.splits sum.splits)

lemma get_args_failure:
  assumes "get_args argv w = Inl e"
  shows "e = Null_pointer_dereference \<and> mount_ok w \<and> path_ok w \<and>
         (\<exists>content. files w COMMAND_FILE = Some content \<and>
            file_lines (MAX_ARGS - 1) content = Inl e)"
proof -
  let ?v = "fst (args_from_boot_message (fst (get_bootloader_message w)) argv w)"
  have "resolved (args_from_command_file ?v w) = Inl e"
    using assms resolved_get_args[of argv w] by simp
  then have "mount_ok w \<and> path_ok w \<and>
         (\<exists>content. files w COMMAND_FILE = Some content \<and>
            file_lines (MAX_ARGS - 1) content = Inl e)"
    by (auto simp: args_from_command_file_def fopen_root_path_def
             split: if_splits option.splits sum.splits)
  then show ?thesis using file_lines_error by blast
qed

text \<open>Such a line stops the block that reads the command file, in every world that has the file.\<close>

lemma args_from_command_file_fault:
  assumes "length argv \<le> 1" and "mount_ok w" and "path_ok w"
    and "files w COMMAND_FILE = Some content"
    and "file_lines (MAX_ARGS - 1) content = Inl e"
  shows "args_from_command_file argv w = Inl e"
  using assms by (simp add: args_from_command_file_def fopen_root_path_def)

lemma log_boot_fields_keeps:
  "mount_ok (log_boot_fields boot w) = mount_ok w"
  "path_ok (log_boot_fields boot w) = path_ok w"
  "files (log_boot_fields boot w) = files w"
  by (simp_all add: log_boot_fields_def emit_def Let_def)

lemma get_bootloader_message_keeps:
  "mount_ok (snd (get_bootloader_message w)) = mount_ok w"
  "path_ok (snd (get_bootloader_message w)) = path_ok w"
  "files (snd (get_bootloader_message w)) = files w"
  by (simp_all add: get_bootloader_message_def emit_def Let_def split: if_splits)

lemma file_lines_empty_line:
  "file_lines (MAX_ARGS - 1) (''--wipe_data'' @ [LF, LF]) = Inl Null_pointer_dereference"
  by (simp add: MAX_ARGS_def eval_nat_numeral fgets_def Let_def MAX_ARG_LENGTH_def strtok_def cstr_def)

lemma args_from_command_file_empty_line:
  "args_from_command_file [''/sbin/recovery'']
     (log_boot_fields (fst (get_bootloader_message (with_command_file (''--wipe_data'' @ [LF, LF]) idle)))
        (snd (get_bootloader_message (with_command_file (''--wipe_data'' @ [LF, LF]) idle))))
   = Inl Null_pointer_dereference"
proof -
  let ?w = "with_command_file (''--wipe_data'' @ [LF, LF]) idle"
  have w: "mount_ok ?w" "path_ok ?w" "files ?w COMMAND_FILE = Some (''--wipe_data'' @ [LF, LF])"
    by (simp_all add: with_command_file_def idle_def)
  show ?thesis
    by (rule args_from_command_file_fault[OF _ _ _ _ file_lines_empty_line])
       (simp_all only: log_boot_fields_keeps get_bootloader_message_keeps w, simp)
qed

text \<open>
  A run of \<^verbatim>\<open>get_args\<close> that returns a vector has done nothing to the outside but log, and
  then handed one block to \<^verbatim>\<open>set_bootloader_message\<close> as its last step: the string in
  the command field is \<open>boot-recovery\<close>, and the string in the recovery field is the word
  \<open>recovery\<close> and a newline, then each argument of the returned vector from index 1 on with
  a newline behind it, cut to the 1023 bytes that fit in front of the terminating NUL. When
  the store takes the write, it holds that block. The arguments are C strings: they hold no
  NUL.
\<close>

lemma get_args_writes_when_it_returns:
  assumes "get_args argv w = Inr (argv', w')" and "\<forall>a\<in>set argv. NUL \<notin> set a"
  shows "\<exists>b ls. trace w' =
               trace w @ ls @ Set_bootloader_message b #
                 (if bcb_write_ok w then [] else [LOGE Cant_write_boot_message]) \<and>
             (\<forall>e\<in>set ls. is_log e) \<and>
             (bcb_write_ok w \<longrightarrow> bcb_store w' = b) \<and>
             cstr (command b) = ''boot-recovery'' \<and>
             cstr (recovery b) =
               take (RECOVERY_SIZE - 1)
                 (''recovery'' @ [LF] @ concat (map (\<lambda>a. a @ [LF]) (drop 1 argv')))"
proof -
  obtain ls where ls: "\<forall>e\<in>set ls. is_log e"
    and w': "w' = set_bootloader_message (write_back (boot_after_scan (fst (get_bootloader_message w)) argv) argv') (logged w ls)"
    using get_args_frame[OF assms(1)] by blast
  let ?b = "write_back (boot_after_scan (fst (get_bootloader_message w)) argv) argv'"
  have "\<forall>a\<in>set (drop 1 argv'). NUL \<notin> set a"
    using get_args_c_strings[OF assms] by (meson in_set_dropD)
  then have m: "map (\<lambda>a. cstr a @ [LF]) (drop 1 argv') = map (\<lambda>a. a @ [LF]) (drop 1 argv')"
    by (simp add: cstr_idem)
  have t: "trace w' = trace w @ ls @ Set_bootloader_message ?b #
      (if bcb_write_ok w then [] else [LOGE Cant_write_boot_message])"
    by (simp add: w' set_bootloader_message_def Let_def emit_def logged_def)
  have s: "bcb_write_ok w \<longrightarrow> bcb_store w' = ?b"
    by (simp add: w' set_bootloader_message_def Let_def emit_def logged_def)
  have r: "cstr (recovery ?b) =
      take (RECOVERY_SIZE - 1) (''recovery'' @ [LF] @ concat (map (\<lambda>a. a @ [LF]) (drop 1 argv')))"
    unfolding write_back_recovery m ..
  show ?thesis using t ls s r write_back_command by blast
qed

section \<open>What finish_recovery leaves behind\<close>

lemma fgets_bytes_prefix: "fgets_bytes k s @ drop (length (fgets_bytes k s)) s = s"
  by (induction k s rule: fgets_bytes.induct) auto

lemma fgets_bytes_nonempty: "0 < k \<Longrightarrow> s \<noteq> [] \<Longrightarrow> fgets_bytes k s \<noteq> []"
  by (cases k; cases s) auto

lemma fgets_Some:
  "unread \<noteq> [] \<Longrightarrow>
   fgets 4096 unread = Some (fgets_bytes 4095 unread, drop (length (fgets_bytes 4095 unread)) unread)"
  by (simp add: fgets_def Let_def)

lemma fgets_None: "fgets 4096 [] = None"
  by (simp add: fgets_def)

lemma copy_lines_Nil: "copy_lines [] pos st = (pos, st)"
  by (subst copy_lines.simps) (simp add: fgets_None)

lemma copy_lines_step:
  "unread \<noteq> [] \<Longrightarrow>
   copy_lines unread pos st =
     copy_lines (drop (length (fgets_bytes 4095 unread)) unread)
       (pos + length (fgets_bytes 4095 unread)) (fputs (fgets_bytes 4095 unread) LOG_FILE st)"
  by (subst copy_lines.simps) (simp add: fgets_Some)

lemma copy_lines_position: "fst (copy_lines unread pos st) = pos + length unread"
proof (induction unread pos st rule: copy_lines.induct)
  case (1 unread pos st)
  show ?case
  proof (cases "unread = []")
    case True
    then show ?thesis by (simp add: copy_lines_Nil)
  next
    case False
    let ?l = "fgets_bytes 4095 unread"
    have "fst (copy_lines unread pos st) =
        fst (copy_lines (drop (length ?l) unread) (pos + length ?l) (fputs ?l LOG_FILE st))"
      using False by (simp add: copy_lines_step)
    also have "\<dots> = pos + length ?l + length (drop (length ?l) unread)"
      using False by (intro "1.IH") (simp_all add: fgets_Some)
    also have "\<dots> = pos + length (?l @ drop (length ?l) unread)" by simp
    finally show ?thesis by (simp only: fgets_bytes_prefix)
  qed
qed

lemma copy_lines_appends:
  assumes "fwrite_ok w" and "NUL \<notin> set unread" and "files w LOG_FILE = Some old"
  shows "snd (copy_lines unread pos (err, w)) =
           (err, w\<lparr>files := (files w)(LOG_FILE \<mapsto> old @ unread)\<rparr>)"
  using assms
proof (induction unread pos "(err, w)" arbitrary: w old rule: copy_lines.induct)
  case (1 unread pos)
  show ?case
  proof (cases "unread = []")
    case True
    have "(files w)(LOG_FILE \<mapsto> old) = files w" using "1.prems"(3) by auto
    then show ?thesis using True by (simp add: copy_lines_Nil)
  next
    case False
    let ?l = "fgets_bytes 4095 unread"
    let ?r = "drop (length ?l) unread"
    let ?w = "w\<lparr>files := (files w)(LOG_FILE \<mapsto> old @ ?l)\<rparr>"
    have u: "?l @ ?r = unread" by (rule fgets_bytes_prefix)
    have n: "NUL \<notin> set ?l" "NUL \<notin> set ?r"
      using "1.prems"(2) u by (metis Un_iff set_append)+
    have ne: "?l \<noteq> []" using False by (simp add: fgets_bytes_nonempty)
    have p: "fputs ?l LOG_FILE (err, w) = (err, ?w)"
      using "1.prems"(1,3) ne n(1) by (simp add: fputs_def cstr_idem)
    have "snd (copy_lines unread pos (err, w)) = snd (copy_lines ?r (pos + length ?l) (err, ?w))"
      using False by (simp add: copy_lines_step p)
    also have "\<dots> = (err, ?w\<lparr>files := (files ?w)(LOG_FILE \<mapsto> (old @ ?l) @ ?r)\<rparr>)"
      using False "1.prems"(1) n(2) p by (intro "1.hyps") (simp_all add: fgets_Some)
    also have "\<dots> = (err, w\<lparr>files := (files w)(LOG_FILE \<mapsto> old @ unread)\<rparr>)"
      using u by simp
    finally show ?thesis .
  qed
qed

lemma copy_lines_frame:
  "\<exists>fs. snd (snd (copy_lines unread pos (err, w))) = w\<lparr>files := fs\<rparr> \<and>
        (\<forall>f. f \<noteq> LOG_FILE \<longrightarrow> fs f = files w f)"
proof (induction unread pos "(err, w)" arbitrary: err w rule: copy_lines.induct)
  case (1 unread pos)
  show ?case
  proof (cases "unread = []")
    case True
    then have "snd (snd (copy_lines unread pos (err, w))) = w\<lparr>files := files w\<rparr>"
      by (simp add: copy_lines_Nil)
    then show ?thesis by blast
  next
    case False
    let ?l = "fgets_bytes 4095 unread"
    let ?r = "drop (length ?l) unread"
    obtain err1 w1 where p: "fputs ?l LOG_FILE (err, w) = (err1, w1)" by (cases "fputs ?l LOG_FILE (err, w)")
    then obtain fs1 where w1: "w1 = w\<lparr>files := fs1\<rparr>" "\<forall>f. f \<noteq> LOG_FILE \<longrightarrow> fs1 f = files w f"
      by (auto simp: fputs_def split: if_splits)
         (metis (no_types, lifting) fun_upd_apply world.surjective world.update_convs(9))+
    have c: "copy_lines unread pos (err, w) = copy_lines ?r (pos + length ?l) (err1, w1)"
      using False by (simp add: copy_lines_step p)
    obtain fs where "snd (snd (copy_lines ?r (pos + length ?l) (err1, w1))) = w1\<lparr>files := fs\<rparr>"
      "\<forall>f. f \<noteq> LOG_FILE \<longrightarrow> fs f = files w1 f"
      using "1.hyps"[of "(?l, ?r)" ?l ?r err1 w1] False p by (auto simp: fgets_Some)
    then show ?thesis unfolding c using w1 by (intro exI[of _ fs]) simp
  qed
qed

lemma write_intent_frame:
  "\<exists>fs tr. write_intent i w = w\<lparr>files := fs, trace := trace w @ tr\<rparr> \<and>
     (\<forall>f. f \<noteq> INTENT_FILE \<longrightarrow> fs f = files w f) \<and> (\<forall>e\<in>set tr. is_LOGE e)"
proof (cases i)
  case None
  then have "write_intent i w = w\<lparr>files := files w, trace := trace w @ []\<rparr>"
    by (simp add: write_intent_def)
  then show ?thesis by (intro exI[of _ "files w"] exI[of _ "[]"]) simp
next
  case (Some s)
  consider (a) "\<not> mount_ok w" | (b) "mount_ok w" "\<not> path_ok w"
    | (c) "mount_ok w" "path_ok w" "\<not> fopen_w_ok w"
    | (d) "mount_ok w" "path_ok w" "fopen_w_ok w" "cstr s = [] \<or> fwrite_ok w"
    | (e) "mount_ok w" "path_ok w" "fopen_w_ok w" "cstr s \<noteq> []" "\<not> fwrite_ok w"
    by blast
  then show ?thesis
  proof cases
    case a
    then have "write_intent i w = w\<lparr>files := files w,
        trace := trace w @ [LOGE (Cant_mount INTENT_FILE), LOGE (Cant_open (Cache INTENT_FILE))]\<rparr>"
      using Some by (simp add: write_intent_def fopen_root_path_def emit_def)
    then show ?thesis
      by (intro exI[of _ "files w"]
            exI[of _ "[LOGE (Cant_mount INTENT_FILE), LOGE (Cant_open (Cache INTENT_FILE))]"])
         (simp add: is_LOGE_def)
  next
    case b
    then have "write_intent i w = w\<lparr>files := files w,
        trace := trace w @ [LOGE (Bad_path INTENT_FILE), LOGE (Cant_open (Cache INTENT_FILE))]\<rparr>"
      using Some by (simp add: write_intent_def fopen_root_path_def emit_def)
    then show ?thesis
      by (intro exI[of _ "files w"]
            exI[of _ "[LOGE (Bad_path INTENT_FILE), LOGE (Cant_open (Cache INTENT_FILE))]"])
         (simp add: is_LOGE_def)
  next
    case c
    then have "write_intent i w = w\<lparr>files := files w,
        trace := trace w @ [LOGE (Cant_open (Cache INTENT_FILE))]\<rparr>"
      using Some by (simp add: write_intent_def fopen_root_path_def emit_def)
    then show ?thesis
      by (intro exI[of _ "files w"] exI[of _ "[LOGE (Cant_open (Cache INTENT_FILE))]"])
         (simp add: is_LOGE_def)
  next
    case d
    then have "write_intent i w = w\<lparr>files := (files w)(INTENT_FILE \<mapsto> cstr s), trace := trace w @ []\<rparr>"
      using Some
      by (auto simp: write_intent_def fopen_root_path_def emit_def fputs_def check_and_fclose_def)
    then show ?thesis
      by (intro exI[of _ "(files w)(INTENT_FILE \<mapsto> cstr s)"] exI[of _ "[]"]) simp
  next
    case e
    then have "write_intent i w = w\<lparr>files := (files w)(INTENT_FILE \<mapsto> []),
        trace := trace w @ [LOGE (Error_in (Cache INTENT_FILE))]\<rparr>"
      using Some
      by (simp add: write_intent_def fopen_root_path_def emit_def fputs_def check_and_fclose_def)
    then show ?thesis
      by (intro exI[of _ "(files w)(INTENT_FILE \<mapsto> [])"]
            exI[of _ "[LOGE (Error_in (Cache INTENT_FILE))]"])
         (simp add: is_LOGE_def)
  qed
qed

lemma copy_logs_frame:
  "\<exists>fs tr. copy_logs w = w\<lparr>files := fs, tmplog_offset := offset_after w, trace := trace w @ tr\<rparr> \<and>
     (\<forall>f. f \<noteq> LOG_FILE \<longrightarrow> fs f = files w f) \<and> (\<forall>e\<in>set tr. is_LOGE e)"
proof -
  consider (a) "\<not> mount_ok w" | (b) "mount_ok w" "\<not> path_ok w"
    | (c) "mount_ok w" "path_ok w" "\<not> fopen_w_ok w"
    | (d) "mount_ok w" "path_ok w" "fopen_w_ok w" "tmp_log w = None"
    | (e) t where "mount_ok w" "path_ok w" "fopen_w_ok w" "tmp_log w = Some t"
    by (cases "tmp_log w") blast+
  then show ?thesis
  proof cases
    case a
    then have "copy_logs w = w\<lparr>files := files w, tmplog_offset := offset_after w,
        trace := trace w @ [LOGE (Cant_mount LOG_FILE), LOGE (Cant_open (Cache LOG_FILE))]\<rparr>"
      by (simp add: copy_logs_def fopen_root_path_def emit_def offset_after_def split: option.splits)
    then show ?thesis
      by (intro exI[of _ "files w"]
            exI[of _ "[LOGE (Cant_mount LOG_FILE), LOGE (Cant_open (Cache LOG_FILE))]"])
         (simp add: is_LOGE_def)
  next
    case b
    then have "copy_logs w = w\<lparr>files := files w, tmplog_offset := offset_after w,
        trace := trace w @ [LOGE (Bad_path LOG_FILE), LOGE (Cant_open (Cache LOG_FILE))]\<rparr>"
      by (simp add: copy_logs_def fopen_root_path_def emit_def offset_after_def split: option.splits)
    then show ?thesis
      by (intro exI[of _ "files w"]
            exI[of _ "[LOGE (Bad_path LOG_FILE), LOGE (Cant_open (Cache LOG_FILE))]"])
         (simp add: is_LOGE_def)
  next
    case c
    then have "copy_logs w = w\<lparr>files := files w, tmplog_offset := offset_after w,
        trace := trace w @ [LOGE (Cant_open (Cache LOG_FILE))]\<rparr>"
      by (simp add: copy_logs_def fopen_root_path_def emit_def offset_after_def split: option.splits)
    then show ?thesis
      by (intro exI[of _ "files w"] exI[of _ "[LOGE (Cant_open (Cache LOG_FILE))]"])
         (simp add: is_LOGE_def)
  next
    case d
    then have "copy_logs w = w\<lparr>files := (files w)(LOG_FILE \<mapsto> log_content w),
        tmplog_offset := offset_after w,
        trace := trace w @ [LOGE (Cant_open TEMPORARY_LOG_FILE)]\<rparr>"
      by (simp add: copy_logs_def fopen_root_path_def emit_def offset_after_def log_content_def
            check_and_fclose_def)
    then show ?thesis
      by (intro exI[of _ "(files w)(LOG_FILE \<mapsto> log_content w)"]
            exI[of _ "[LOGE (Cant_open TEMPORARY_LOG_FILE)]"])
         (simp add: is_LOGE_def)
  next
    case e
    let ?w1 = "w\<lparr>files := (files w)(LOG_FILE \<mapsto> log_content w)\<rparr>"
    let ?c = "copy_lines (drop (tmplog_offset w) t) (tmplog_offset w) (False, ?w1)"
    obtain pos err w2 where c: "?c = (pos, err, w2)" by (cases ?c)
    have pos: "pos = offset_after w"
      using copy_lines_position[of "drop (tmplog_offset w) t" "tmplog_offset w" "(False, ?w1)"] c e
      by (simp add: offset_after_def max_def)
    obtain fs where fs: "w2 = ?w1\<lparr>files := fs\<rparr>" "\<forall>f. f \<noteq> LOG_FILE \<longrightarrow> fs f = files ?w1 f"
      using copy_lines_frame[of "drop (tmplog_offset w) t" "tmplog_offset w" False ?w1] c by auto
    have "copy_logs w = w\<lparr>files := fs, tmplog_offset := offset_after w,
        trace := trace w @ (if err then [LOGE (Error_in (Cache LOG_FILE))] else [])\<rparr>"
      using e c fs(1) pos
      by (simp add: copy_logs_def fopen_root_path_def emit_def log_content_def check_and_fclose_def)
    moreover have "\<forall>f. f \<noteq> LOG_FILE \<longrightarrow> fs f = files w f" using fs(2) by simp
    ultimately show ?thesis
      by (intro exI[of _ fs] exI[of _ "if err then [LOGE (Error_in (Cache LOG_FILE))] else []"])
         (simp add: is_LOGE_def)
  qed
qed

lemma copy_logs_appends:
  assumes "mount_ok w" "path_ok w" "fopen_w_ok w" "fwrite_ok w"
    and "tmp_log w = Some (p @ a)" and "tmplog_offset w = length p" and "NUL \<notin> set a"
  shows "copy_logs w = w\<lparr>files := (files w)(LOG_FILE \<mapsto> log_content w @ a),
                          tmplog_offset := length p + length a\<rparr>"
proof -
  let ?w1 = "w\<lparr>files := (files w)(LOG_FILE \<mapsto> log_content w)\<rparr>"
  let ?c = "copy_lines a (length p) (False, ?w1)"
  have "fst ?c = length p + length a" by (rule copy_lines_position)
  moreover have "snd ?c = (False, ?w1\<lparr>files := (files ?w1)(LOG_FILE \<mapsto> log_content w @ a)\<rparr>)"
    using assms(4,7) by (intro copy_lines_appends) simp_all
  ultimately have "?c = (length p + length a, False,
      ?w1\<lparr>files := (files ?w1)(LOG_FILE \<mapsto> log_content w @ a)\<rparr>)"
    by (metis prod.collapse)
  then show ?thesis
    using assms(1,2,3,5,6)
    by (simp add: copy_logs_def fopen_root_path_def log_content_def check_and_fclose_def)
qed

lemma remove_command_file_cases:
  "remove_command_file w =
     (if mount_ok w \<and> path_ok w \<and> (files w COMMAND_FILE = None \<or> unlink_ok w)
      then w\<lparr>files := (files w)(COMMAND_FILE := None)\<rparr>
      else w\<lparr>trace := trace w @ [LOGW (Cant_unlink COMMAND_FILE)]\<rparr>)"
proof (cases "files w COMMAND_FILE")
  case None
  then have "(files w)(COMMAND_FILE := None) = files w" by auto
  then show ?thesis using None by (simp add: remove_command_file_def unlink_def emit_def)
next
  case (Some c)
  then show ?thesis by (simp add: remove_command_file_def unlink_def emit_def)
qed

lemma count_LOGE: "\<forall>e\<in>set tr. is_LOGE e \<Longrightarrow> count_list tr (LOGW m) = 0"
  by (induction tr) (auto simp: is_LOGE_def)

lemma finish_recovery_frame:
  "\<exists>fs tr. finish_recovery i w =
       w\<lparr>bcb_store := (if bcb_write_ok w then zeroed else bcb_store w), files := fs,
          tmplog_offset := offset_after w, trace := trace w @ tr\<rparr> \<and>
     fs COMMAND_FILE = (if mount_ok w \<and> path_ok w \<and> unlink_ok w then None else files w COMMAND_FILE) \<and>
     count_list tr (LOGW (Cant_unlink COMMAND_FILE)) =
       (if mount_ok w \<and> path_ok w \<and> (files w COMMAND_FILE = None \<or> unlink_ok w) then 0 else 1)"
proof -
  obtain fs1 tr1 where w1: "write_intent i w = w\<lparr>files := fs1, trace := trace w @ tr1\<rparr>"
    and f1: "\<forall>f. f \<noteq> INTENT_FILE \<longrightarrow> fs1 f = files w f" and t1: "\<forall>e\<in>set tr1. is_LOGE e"
    using write_intent_frame by blast
  let ?w1 = "w\<lparr>files := fs1, trace := trace w @ tr1\<rparr>"
  obtain fs2 tr2 where w2: "copy_logs ?w1 =
      ?w1\<lparr>files := fs2, tmplog_offset := offset_after ?w1, trace := trace ?w1 @ tr2\<rparr>"
    and f2: "\<forall>f. f \<noteq> LOG_FILE \<longrightarrow> fs2 f = files ?w1 f" and t2: "\<forall>e\<in>set tr2. is_LOGE e"
    using copy_logs_frame by blast
  have o: "offset_after ?w1 = offset_after w" by (auto simp: offset_after_def split: option.splits)
  have c: "fs2 COMMAND_FILE = files w COMMAND_FILE" using f1 f2 by simp
  let ?tr3 = "tr1 @ tr2 @ Set_bootloader_message zeroed #
      (if bcb_write_ok w then [] else [LOGE Cant_write_boot_message])"
  let ?w3 = "w\<lparr>bcb_store := (if bcb_write_ok w then zeroed else bcb_store w), files := fs2,
      tmplog_offset := offset_after w, trace := trace w @ ?tr3\<rparr>"
  have w3: "set_bootloader_message zeroed (copy_logs (write_intent i w)) = ?w3"
    unfolding w1 w2 o by (simp add: set_bootloader_message_def Let_def emit_def)
  have n3: "count_list ?tr3 (LOGW (Cant_unlink COMMAND_FILE)) = 0"
    using t1 t2 by (simp add: count_LOGE)
  have cond: "(mount_ok ?w3 \<and> path_ok ?w3 \<and> (files ?w3 COMMAND_FILE = None \<or> unlink_ok ?w3)) =
      (mount_ok w \<and> path_ok w \<and> (files w COMMAND_FILE = None \<or> unlink_ok w))"
    using c by simp
  show ?thesis
  proof (cases "mount_ok w \<and> path_ok w \<and> (files w COMMAND_FILE = None \<or> unlink_ok w)")
    case True
    have "remove_command_file ?w3 = ?w3\<lparr>files := (files ?w3)(COMMAND_FILE := None)\<rparr>"
      unfolding remove_command_file_cases[of ?w3] cond by (simp only: True if_True simp_thms)
    then have "finish_recovery i w = w\<lparr>bcb_store := (if bcb_write_ok w then zeroed else bcb_store w),
        files := fs2(COMMAND_FILE := None), tmplog_offset := offset_after w,
        trace := trace w @ (?tr3 @ [Sync])\<rparr>"
      unfolding finish_recovery_def w3 by (simp add: emit_def)
    moreover have "(fs2(COMMAND_FILE := None)) COMMAND_FILE =
        (if mount_ok w \<and> path_ok w \<and> unlink_ok w then None else files w COMMAND_FILE)"
      using True by auto
    moreover have "count_list (?tr3 @ [Sync]) (LOGW (Cant_unlink COMMAND_FILE)) =
        (if mount_ok w \<and> path_ok w \<and> (files w COMMAND_FILE = None \<or> unlink_ok w) then 0 else 1)"
      using n3 True by simp
    ultimately show ?thesis by blast
  next
    case False
    have "remove_command_file ?w3 = ?w3\<lparr>trace := trace ?w3 @ [LOGW (Cant_unlink COMMAND_FILE)]\<rparr>"
      unfolding remove_command_file_cases[of ?w3] cond by (simp only: False if_False)
    then have "finish_recovery i w = w\<lparr>bcb_store := (if bcb_write_ok w then zeroed else bcb_store w),
        files := fs2, tmplog_offset := offset_after w,
        trace := trace w @ (?tr3 @ [LOGW (Cant_unlink COMMAND_FILE), Sync])\<rparr>"
      unfolding finish_recovery_def w3 by (simp add: emit_def)
    moreover have "fs2 COMMAND_FILE =
        (if mount_ok w \<and> path_ok w \<and> unlink_ok w then None else files w COMMAND_FILE)"
      using False c by auto
    moreover have "count_list (?tr3 @ [LOGW (Cant_unlink COMMAND_FILE), Sync])
        (LOGW (Cant_unlink COMMAND_FILE)) =
        (if mount_ok w \<and> path_ok w \<and> (files w COMMAND_FILE = None \<or> unlink_ok w) then 0 else 1)"
      using n3 False by simp
    ultimately show ?thesis by blast
  qed
qed

lemma finish_recovery_fields:
  "bcb_store (finish_recovery i w) = (if bcb_write_ok w then zeroed else bcb_store w)"
  "files (finish_recovery i w) COMMAND_FILE =
     (if mount_ok w \<and> path_ok w \<and> unlink_ok w then None else files w COMMAND_FILE)"
  "unlink_warnings (finish_recovery i w) = unlink_warnings w +
     (if mount_ok w \<and> path_ok w \<and> (files w COMMAND_FILE = None \<or> unlink_ok w) then 0 else 1)"
  "tmplog_offset (finish_recovery i w) = offset_after w"
  "bcb_write_ok (finish_recovery i w) = bcb_write_ok w"
  "bcb_read_ok (finish_recovery i w) = bcb_read_ok w"
  "mount_ok (finish_recovery i w) = mount_ok w"
  "path_ok (finish_recovery i w) = path_ok w"
  "fopen_w_ok (finish_recovery i w) = fopen_w_ok w"
  "fwrite_ok (finish_recovery i w) = fwrite_ok w"
  "unlink_ok (finish_recovery i w) = unlink_ok w"
  "tmp_log (finish_recovery i w) = tmp_log w"
  using finish_recovery_frame[of i w] by (auto simp: unlink_warnings_def)

lemma write_intent_fields:
  "files (write_intent i w) LOG_FILE = files w LOG_FILE"
  "mount_ok (write_intent i w) = mount_ok w" "path_ok (write_intent i w) = path_ok w"
  "fopen_w_ok (write_intent i w) = fopen_w_ok w" "fwrite_ok (write_intent i w) = fwrite_ok w"
  "tmp_log (write_intent i w) = tmp_log w" "tmplog_offset (write_intent i w) = tmplog_offset w"
  "bcb_write_ok (write_intent i w) = bcb_write_ok w"
  using write_intent_frame[of i w] by auto

lemma finish_recovery_log_file:
  "files (finish_recovery i w) LOG_FILE = files (copy_logs (write_intent i w)) LOG_FILE"
  by (simp add: finish_recovery_def remove_command_file_cases set_bootloader_message_def Let_def emit_def)

lemma copy_lines_nothing_written:
  "\<not> fwrite_ok w \<Longrightarrow> snd (snd (copy_lines unread pos (err, w))) = w"
proof (induction unread pos "(err, w)" arbitrary: err rule: copy_lines.induct)
  case (1 unread pos)
  show ?case
  proof (cases "unread = []")
    case True
    then show ?thesis by (simp add: copy_lines_Nil)
  next
    case False
    let ?l = "fgets_bytes 4095 unread"
    have "snd (fputs ?l LOG_FILE (err, w)) = w"
      using "1.prems" by (simp add: fputs_def)
    then obtain err1 where p: "fputs ?l LOG_FILE (err, w) = (err1, w)"
      by (metis prod.collapse)
    show ?thesis
      using "1.hyps"[of "(?l, drop (length ?l) unread)" ?l "drop (length ?l) unread" err1]
        False p "1.prems"
      by (simp add: copy_lines_step fgets_Some)
  qed
qed

lemma copy_logs_nothing_written:
  assumes "mount_ok w" "path_ok w" "fopen_w_ok w" "\<not> fwrite_ok w"
  shows "files (copy_logs w) LOG_FILE = Some (log_content w)"
proof (cases "tmp_log w")
  case None
  then show ?thesis using assms
    by (simp add: copy_logs_def fopen_root_path_def log_content_def check_and_fclose_def emit_def)
next
  case (Some t)
  let ?w1 = "w\<lparr>files := (files w)(LOG_FILE \<mapsto> log_content w)\<rparr>"
  let ?c = "copy_lines (drop (tmplog_offset w) t) (tmplog_offset w) (False, ?w1)"
  obtain pos err w2 where c: "?c = (pos, err, w2)" by (cases ?c)
  have "w2 = ?w1"
    using copy_lines_nothing_written[of ?w1 "drop (tmplog_offset w) t" "tmplog_offset w" False] c assms(4)
    by simp
  then show ?thesis using assms Some c
    by (simp add: copy_logs_def fopen_root_path_def log_content_def check_and_fclose_def emit_def)
qed

lemma finish_recovery_appends:
  assumes "mount_ok w" "path_ok w" "fopen_w_ok w" "fwrite_ok w"
    and "tmp_log w = Some (p @ a)" and "tmplog_offset w = length p" and "NUL \<notin> set a"
  shows "files (finish_recovery i w) LOG_FILE = Some (log_content w @ a)"
proof -
  let ?w1 = "write_intent i w"
  have "copy_logs ?w1 = ?w1\<lparr>files := (files ?w1)(LOG_FILE \<mapsto> log_content ?w1 @ a),
                          tmplog_offset := length p + length a\<rparr>"
    using assms by (intro copy_logs_appends) (simp_all add: write_intent_fields)
  then show ?thesis
    by (simp add: finish_recovery_log_file log_content_def write_intent_fields)
qed

lemma is_LOGE_retiring: "is_LOGE e \<Longrightarrow> retiring e"
  by (cases e) (simp_all add: is_LOGE_def retiring_def)

lemma finish_recovery_trace:
  "\<exists>tr. trace (finish_recovery i w) = trace w @ tr \<and> (\<forall>e\<in>set tr. retiring e)"
proof -
  obtain fs1 tr1 where w1: "write_intent i w = w\<lparr>files := fs1, trace := trace w @ tr1\<rparr>"
    and t1: "\<forall>e\<in>set tr1. is_LOGE e"
    using write_intent_frame by blast
  let ?w1 = "w\<lparr>files := fs1, trace := trace w @ tr1\<rparr>"
  obtain fs2 tr2 where w2: "copy_logs ?w1 =
      ?w1\<lparr>files := fs2, tmplog_offset := offset_after ?w1, trace := trace ?w1 @ tr2\<rparr>"
    and t2: "\<forall>e\<in>set tr2. is_LOGE e"
    using copy_logs_frame by blast
  let ?tr = "tr1 @ tr2 @ Set_bootloader_message zeroed #
      (if bcb_write_ok w then [] else [LOGE Cant_write_boot_message]) @
      (if trace (remove_command_file (set_bootloader_message zeroed (copy_logs (write_intent i w)))) =
          trace (set_bootloader_message zeroed (copy_logs (write_intent i w)))
       then [] else [LOGW (Cant_unlink COMMAND_FILE)]) @ [Sync]"
  have "trace (finish_recovery i w) = trace w @ ?tr"
    unfolding finish_recovery_def w1 w2
    by (simp add: set_bootloader_message_def Let_def emit_def remove_command_file_cases)
  moreover have "\<forall>e\<in>set ?tr. retiring e"
    using t1 t2 by (auto simp: is_LOGE_retiring) (simp_all add: retiring_def)
  ultimately show ?thesis by blast
qed

lemma prompt_and_wait_extends: "\<exists>ys. trace (snd (prompt_and_wait sel w)) = trace w @ ys"
proof (induction sel arbitrary: w)
  case Nil
  obtain tr where "trace (finish_recovery None w) = trace w @ tr"
    using finish_recovery_trace by blast
  then show ?case by (simp add: emit_def)
next
  case (Cons s sel)
  obtain item r where s: "s = (item, r)" by (cases s)
  obtain tr where tr: "trace (finish_recovery None w) = trace w @ tr"
    using finish_recovery_trace by blast
  let ?w1 = "emit Get_menu_selection (emit Ui_reset_progress (finish_recovery None w))"
  have t1: "trace ?w1 = trace w @ tr @ [Ui_reset_progress, Get_menu_selection]"
    using tr by (simp add: emit_def)
  obtain y1 where y1: "trace (snd (prompt_and_wait sel (emit Reboot_options ?w1))) =
      trace (emit Reboot_options ?w1) @ y1" using Cons by blast
  obtain y2 where y2: "trace (snd (prompt_and_wait sel (emit (Menu_item item) ?w1))) =
      trace (emit (Menu_item item) ?w1) @ y2" using Cons by blast
  obtain y3 where y3: "trace (snd (prompt_and_wait sel ?w1)) = trace ?w1 @ y3" using Cons by blast
  show ?case
    unfolding s using t1 y1 y2 y3
    by (simp add: Let_def emit_def)
qed

lemma prompt_and_wait_trace:
  "\<exists>es ys. trace (snd (prompt_and_wait sel w)) =
             trace w @ es @ Ui_reset_progress # Get_menu_selection # ys \<and>
           (\<forall>e\<in>set es. retiring e)"
proof -
  obtain tr where tr: "trace (finish_recovery None w) = trace w @ tr" "\<forall>e\<in>set tr. retiring e"
    using finish_recovery_trace by blast
  let ?w1 = "emit Get_menu_selection (emit Ui_reset_progress (finish_recovery None w))"
  have t1: "trace ?w1 = trace w @ tr @ [Ui_reset_progress, Get_menu_selection]"
    using tr(1) by (simp add: emit_def)
  have "\<exists>ys. trace (snd (prompt_and_wait sel w)) = trace ?w1 @ ys"
  proof (cases sel)
    case Nil
    then show ?thesis by simp
  next
    case (Cons s sel')
    obtain item r where s: "s = (item, r)" by (cases s)
    obtain y1 where y1: "trace (snd (prompt_and_wait sel' (emit Reboot_options ?w1))) =
        trace (emit Reboot_options ?w1) @ y1" using prompt_and_wait_extends by blast
    obtain y2 where y2: "trace (snd (prompt_and_wait sel' (emit (Menu_item item) ?w1))) =
        trace (emit (Menu_item item) ?w1) @ y2" using prompt_and_wait_extends by blast
    obtain y3 where y3: "trace (snd (prompt_and_wait sel' ?w1)) = trace ?w1 @ y3"
      using prompt_and_wait_extends by blast
    show ?thesis
      unfolding Cons s using y1 y2 y3
      by (simp add: Let_def emit_def)
  qed
  then obtain ys where "trace (snd (prompt_and_wait sel w)) = trace ?w1 @ ys" ..
  then have "trace (snd (prompt_and_wait sel w)) =
      trace w @ tr @ Ui_reset_progress # Get_menu_selection # ys"
    by (simp add: t1)
  then show ?thesis using tr(2) by blast
qed

section \<open>The command and what follows it\<close>

lemma retiring_not_menu:
  "\<forall>e\<in>set tr. retiring e \<Longrightarrow>
   Get_menu_selection \<notin> set tr \<and> Ui_set_background BACKGROUND_ICON_ERROR \<notin> set tr"
  by (auto simp: retiring_def)

lemma leave_trace:
  "\<exists>es. trace (snd (leave c opts r w)) = trace w @ es \<and>
        Get_menu_selection \<notin> set es \<and> Ui_set_background BACKGROUND_ICON_ERROR \<notin> set es"
proof -
  let ?w1 = "emit (Maybe_install_firmware_update (send_intent opts)) w"
  obtain tr where tr: "trace (finish_recovery (send_intent opts) ?w1) = trace ?w1 @ tr"
    "\<forall>e\<in>set tr. retiring e"
    using finish_recovery_trace by blast
  have n: "Get_menu_selection \<notin> set tr" "Ui_set_background BACKGROUND_ICON_ERROR \<notin> set tr"
    using retiring_not_menu[OF tr(2)] by blast+
  consider (a) "firmware_update_reboots c"
    | (b) "\<not> firmware_update_reboots c" "r = 0"
    | (c) "\<not> firmware_update_reboots c" "r = 2"
    | (d) "\<not> firmware_update_reboots c" "r \<noteq> 0" "r \<noteq> 2" by blast
  then show ?thesis
  proof cases
    case a
    then have "trace (snd (leave c opts r w)) =
        trace w @ [Maybe_install_firmware_update (send_intent opts)]"
      by (simp add: leave_def Let_def emit_def)
    then show ?thesis by (intro exI[of _ "[Maybe_install_firmware_update (send_intent opts)]"]) simp
  next
    case b
    then have "trace (snd (leave c opts r w)) =
        trace w @ (Maybe_install_firmware_update (send_intent opts) # tr @ [Sync])"
      using tr(1) by (simp add: leave_def Let_def emit_def)
    then show ?thesis using n
      by (intro exI[of _ "Maybe_install_firmware_update (send_intent opts) # tr @ [Sync]"]) simp
  next
    case c
    then have "trace (snd (leave c opts r w)) =
        trace w @ (Maybe_install_firmware_update (send_intent opts) # tr @
          [Sync, Ui_print (''Rebooting...'' @ [LF]), Sync, Reboot RB_POWER_OFF])"
      using tr(1) by (simp add: leave_def Let_def emit_def)
    then show ?thesis using n
      by (intro exI[of _ "Maybe_install_firmware_update (send_intent opts) # tr @
          [Sync, Ui_print (''Rebooting...'' @ [LF]), Sync, Reboot RB_POWER_OFF]"]) simp
  next
    case d
    then have "trace (snd (leave c opts r w)) =
        trace w @ (Maybe_install_firmware_update (send_intent opts) # tr @
          [Sync, Ui_print (''Rebooting...'' @ [LF]), Sync, Reboot RB_AUTOBOOT])"
      using tr(1) by (simp add: leave_def Let_def emit_def)
    then show ?thesis using n
      by (intro exI[of _ "Maybe_install_firmware_update (send_intent opts) # tr @
          [Sync, Ui_print (''Rebooting...'' @ [LF]), Sync, Reboot RB_AUTOBOOT]"]) simp
  qed
qed

lemma leave_outcome: "fst (leave c opts r w) \<noteq> Waits_for_key"
  by (simp add: leave_def Let_def)

lemma operations_append: "operations (xs @ ys) = operations xs @ operations ys"
  by (induction xs) (auto split: event.splits)

lemma erase_root_eq:
  "erase_root c root w = (format_root_device c root, w\<lparr>trace := trace w @ erase_events root\<rparr>)"
  by (simp add: erase_root_def erase_events_def emit_def)

lemma run_command_install:
  "update_package opts = Some p \<Longrightarrow>
   run_command c opts w =
     (install_package c p,
      w\<lparr>trace := trace w @ Install_package p #
         (if install_package c p \<noteq> INSTALL_SUCCESS
          then [Ui_print (''Installation aborted.'' @ [LF])] else [])\<rparr>)"
  by (simp add: run_command_def Let_def emit_def)

lemma run_command_wipe:
  assumes "update_package opts = None" and "wipe_data opts \<or> wipe_cache opts"
  shows "run_command c opts w =
     (let failed = (wipe_data opts \<and> format_root_device c ''DATA:'' \<noteq> 0) \<or>
                   (wipe_cache opts \<and> format_root_device c ''CACHE:'' \<noteq> 0)
      in (if failed then INSTALL_ERROR else INSTALL_SUCCESS,
          w\<lparr>trace := trace w @
             (if wipe_data opts then erase_events ''DATA:'' else []) @
             (if wipe_cache opts then erase_events ''CACHE:'' else []) @
             (if failed then [Ui_print (''Data wipe failed.'' @ [LF])] else [])\<rparr>))"
  using assms
  by (auto simp: run_command_def erase_root_eq Let_def emit_def INSTALL_ERROR_def INSTALL_SUCCESS_def)

lemma run_command_nothing:
  "update_package opts = None \<Longrightarrow> \<not> wipe_data opts \<Longrightarrow> \<not> wipe_cache opts \<Longrightarrow>
   run_command c opts w = (INSTALL_ERROR, w)"
  by (simp add: run_command_def)

lemma operations_erase_events: "operations (erase_events root) = [Format_root_device root]"
  by (simp add: erase_events_def)

lemma parse_wipe_data:
  "parse_options [prog, ''--wipe_data''] w =
     Inr (no_options\<lparr>wipe_data := True, wipe_cache := True\<rparr>, w)"
  by (simp add: parse_options_def OPTIONS_def returning_def switch_arg_def)

text \<open>\<^verbatim>\<open>main\<close> is the command and what follows it, on the options parsed from the vector.\<close>

lemma main_from_status:
  assumes "get_args argv w = Inr (argv1, w1)" and "parse_options argv1 w1 = Inr (opts, w2)"
  shows "main c argv w =
           Inr (after_command c opts
                  (fst (run_command c opts
                     (if register_update_commands c \<noteq> 0
                      then emit (LOGE Cant_install_update_commands) w2 else w2)))
                  (snd (run_command c opts
                     (if register_update_commands c \<noteq> 0
                      then emit (LOGE Cant_install_update_commands) w2 else w2))))"
  using assms by (simp add: main_def Let_def split_beta)

text \<open>
  The status of the command, for every value of the options: with an update package, the
  value \<^verbatim>\<open>install_package\<close> returns, and the install is the only operation; otherwise,
  with a wipe flag, the data partition is erased if asked for and then the cache partition if
  asked for, and the status is \<^verbatim>\<open>INSTALL_ERROR\<close> if an erase failed and
  \<^verbatim>\<open>INSTALL_SUCCESS\<close> if none did; otherwise \<^verbatim>\<open>INSTALL_ERROR\<close> with no operation.
\<close>

lemma run_command_status:
  "fst (run_command c opts w) =
     (case update_package opts of
        Some package \<Rightarrow> install_package c package
      | None \<Rightarrow>
          if wipe_data opts \<or> wipe_cache opts
          then (if (wipe_data opts \<and> format_root_device c ''DATA:'' \<noteq> 0) \<or>
                   (wipe_cache opts \<and> format_root_device c ''CACHE:'' \<noteq> 0)
                then INSTALL_ERROR else INSTALL_SUCCESS)
          else INSTALL_ERROR) \<and>
   operations (trace (snd (run_command c opts w))) =
     operations (trace w) @
     (case update_package opts of
        Some package \<Rightarrow> [Install_package package]
      | None \<Rightarrow> (if wipe_data opts then [Format_root_device ''DATA:''] else []) @
                (if wipe_cache opts then [Format_root_device ''CACHE:''] else []))"
proof (cases "update_package opts")
  case (Some p)
  then show ?thesis
    by (simp add: run_command_install operations_append)
next
  case None
  show ?thesis
  proof (cases "wipe_data opts \<or> wipe_cache opts")
    case True
    show ?thesis
      using None True
      by (simp add: run_command_wipe[OF None True] Let_def operations_append
            operations_erase_events)
  next
    case False
    then show ?thesis using None by (simp add: run_command_nothing)
  qed
qed

text \<open>An option whose name is not in the table ends the parsing without options.\<close>

lemma parse_unknown_option:
  "parse_options [prog, ''--bogus''] w = Inl Options_table_overrun"
  by (simp add: parse_options_def OPTIONS_def)

section \<open>The claims\<close>

text \<open>
  C1. \<^verbatim>\<open>get_args\<close> does not reach the write of the control block on every run. Started
  with the program name alone, an erased control block and a command file whose second line
  is empty, it takes the first line as an argument; on the second, \<^verbatim>\<open>strtok\<close> finds no
  token and \<^verbatim>\<open>strdup\<close> is handed the null pointer. The run ends there, in the loop over the
  lines of the file and ahead of the call of \<^verbatim>\<open>set_bootloader_message\<close> behind it, and so
  does \<^verbatim>\<open>main\<close>. The loop over the lines of the control block tests the result of
  \<^verbatim>\<open>strtok\<close>; this one does not.
\<close>

theorem get_args_empty_line_in_command_file:
  "file_lines (MAX_ARGS - 1) (''--wipe_data'' @ [LF, LF]) = Inl Null_pointer_dereference \<and>
   get_args [''/sbin/recovery''] (with_command_file (''--wipe_data'' @ [LF, LF]) idle) =
     Inl Null_pointer_dereference \<and>
   main c [''/sbin/recovery''] (with_command_file (''--wipe_data'' @ [LF, LF]) idle) =
     Inl Null_pointer_dereference"
proof -
  have g: "get_args [''/sbin/recovery''] (with_command_file (''--wipe_data'' @ [LF, LF]) idle) =
      Inl Null_pointer_dereference"
    by (simp only: get_args_unfold idle_vector fst_conv snd_conv
          args_from_command_file_empty_line sum.case)
  have "main c [''/sbin/recovery''] (with_command_file (''--wipe_data'' @ [LF, LF]) idle) =
      Inl Null_pointer_dereference"
    by (simp only: main_def g sum.case)
  then show ?thesis using g file_lines_empty_line by blast
qed

text \<open>
  C2. The first source that yields at least two arguments decides. A vector given on the
  command line with two or more elements is returned as it is, in every world: whatever the
  control block and the command file hold. With at most the program name on the command
  line, a control block whose scan yields two or more elements gives the vector, whatever the
  command file holds. Only when that scan yields at most one element is the command file
  opened: then its lines follow element zero of the vector so far, or a line without a token
  stops the run.
\<close>

theorem get_args_precedence:
  "(2 \<le> length argv \<longrightarrow> resolved (get_args argv w) = Inr argv) \<and>
   (length argv \<le> 1 \<and> 2 \<le> length (fst (args_from_boot_message (fst (get_bootloader_message w)) argv w))
      \<longrightarrow> resolved (get_args argv w) =
            Inr (fst (args_from_boot_message (fst (get_bootloader_message w)) argv w))) \<and>
   (length argv \<le> 1 \<and> length (fst (args_from_boot_message (fst (get_bootloader_message w)) argv w)) \<le> 1
      \<longrightarrow> resolved (get_args argv w) =
            (let v = fst (args_from_boot_message (fst (get_bootloader_message w)) argv w)
             in if \<not> mount_ok w \<or> \<not> path_ok w then Inr v
                else case files w COMMAND_FILE of
                       None \<Rightarrow> Inr v
                     | Some content \<Rightarrow>
                         (case file_lines (MAX_ARGS - 1) content of
                            Inl e \<Rightarrow> Inl e
                          | Inr args \<Rightarrow> Inr (argv0 v # args))))"
proof (intro conjI impI)
  assume "2 \<le> length argv"
  then show "resolved (get_args argv w) = Inr argv"
    by (simp add: resolved_get_args args_from_boot_message_def args_from_command_file_def)
next
  assume "length argv \<le> 1 \<and> 2 \<le> length (fst (args_from_boot_message (fst (get_bootloader_message w)) argv w))"
  then show "resolved (get_args argv w) =
            Inr (fst (args_from_boot_message (fst (get_bootloader_message w)) argv w))"
    by (simp add: resolved_get_args args_from_command_file_def)
next
  assume "length argv \<le> 1 \<and> length (fst (args_from_boot_message (fst (get_bootloader_message w)) argv w)) \<le> 1"
  then show "resolved (get_args argv w) =
            (let v = fst (args_from_boot_message (fst (get_bootloader_message w)) argv w)
             in if \<not> mount_ok w \<or> \<not> path_ok w then Inr v
                else case files w COMMAND_FILE of
                       None \<Rightarrow> Inr v
                     | Some content \<Rightarrow>
                         (case file_lines (MAX_ARGS - 1) content of
                            Inl e \<Rightarrow> Inl e
                          | Inr args \<Rightarrow> Inr (argv0 v # args)))"
    by (simp add: resolved_get_args args_from_command_file_def fopen_root_path_def Let_def
             split: option.splits sum.splits)
qed

theorem get_args_precedence_witness:
  "(2 \<le> length [''/sbin/recovery'', ''--update_package=SDCARD:update.zip''] \<and>
    resolved (get_args [''/sbin/recovery'', ''--update_package=SDCARD:update.zip''] busy) =
      Inr [''/sbin/recovery'', ''--update_package=SDCARD:update.zip'']) \<and>
   (length [''/sbin/recovery''] \<le> 1 \<and>
    2 \<le> length (fst (args_from_boot_message (fst (get_bootloader_message busy)) [''/sbin/recovery''] busy)) \<and>
    resolved (get_args [''/sbin/recovery''] busy) = Inr [''recovery'', ''--wipe_cache'']) \<and>
   (length [''/sbin/recovery''] \<le> 1 \<and>
    length (fst (args_from_boot_message
       (fst (get_bootloader_message (with_command_file (''--wipe_data'' @ [LF]) idle)))
       [''/sbin/recovery''] (with_command_file (''--wipe_data'' @ [LF]) idle))) \<le> 1 \<and>
    resolved (get_args [''/sbin/recovery''] (with_command_file (''--wipe_data'' @ [LF]) idle)) =
      Inr [''/sbin/recovery'', ''--wipe_data''])"
proof -
  let ?w = "with_command_file (''--wipe_data'' @ [LF]) idle"
  have f: "mount_ok ?w" "path_ok ?w" "files ?w COMMAND_FILE = Some (''--wipe_data'' @ [LF])"
    by (simp_all add: with_command_file_def idle_def)
  have a: "resolved (get_args [''/sbin/recovery'', ''--update_package=SDCARD:update.zip''] busy) =
      Inr [''/sbin/recovery'', ''--update_package=SDCARD:update.zip'']"
    using get_args_precedence[of "[''/sbin/recovery'', ''--update_package=SDCARD:update.zip'']" busy]
    by simp
  have b: "resolved (get_args [''/sbin/recovery''] busy) = Inr [''recovery'', ''--wipe_cache'']"
    using get_args_precedence[of "[''/sbin/recovery'']" busy] by (simp add: busy_vector)
  have c: "resolved (get_args [''/sbin/recovery''] ?w) = Inr [''/sbin/recovery'', ''--wipe_data'']"
    using get_args_precedence[of "[''/sbin/recovery'']" ?w] f wipe_data_line
    by (simp add: idle_vector argv0_def del: append.simps)
  show ?thesis using a b c by (simp add: busy_vector idle_vector)
qed

text \<open>
  C3, as the code has it. A vector read from the control block starts with the word
  \<open>recovery\<close>, the first line of the field, and not with the name the program was started
  under: with only the program name on the command line and a block armed with
  \<open>--wipe_cache\<close>, the vector is \<open>recovery\<close>, \<open>--wipe_cache\<close>. Writing the block and
  resolving from it again gives back the arguments from index 1 on, up to 99 of them, behind the
  word \<open>recovery\<close>, when the store took the write and can be read, there is at least one
  argument, no argument is empty or holds a newline or a NUL, and the text written fits in the
  1023 bytes of the field.
\<close>

theorem get_args_resumes:
  "(length argv \<le> 1 \<and> bcb_read_ok w \<and>
    cstr (recovery (bcb_store w)) = ''recovery'' @ [LF] @ ''--wipe_cache'' @ [LF]
    \<longrightarrow> resolved (get_args argv w) = Inr [''recovery'', ''--wipe_cache'']) \<and>
   (get_args argv w = Inr (argv', w') \<and> bcb_write_ok w \<and> (\<forall>a\<in>set argv. NUL \<notin> set a) \<and>
    (\<forall>a\<in>set (drop 1 argv'). a \<noteq> [] \<and> LF \<notin> set a) \<and> drop 1 argv' \<noteq> [] \<and>
    length (''recovery'' @ [LF] @ concat (map (\<lambda>a. a @ [LF]) (drop 1 argv'))) \<le> RECOVERY_SIZE - 1 \<and>
    bcb_store wn = bcb_store w' \<and> bcb_read_ok wn \<and> length argvn \<le> 1
    \<longrightarrow> resolved (get_args argvn wn) = Inr (''recovery'' # take (MAX_ARGS - 1) (drop 1 argv')))"
proof (intro conjI impI)
  assume h: "length argv \<le> 1 \<and> bcb_read_ok w \<and>
    cstr (recovery (bcb_store w)) = ''recovery'' @ [LF] @ ''--wipe_cache'' @ [LF]"
  then have "take (RECOVERY_SIZE - 1) (cstr (recovery (bcb_store w))) =
      ''recovery'' @ LF # concat (map (\<lambda>a. a @ [LF]) [''--wipe_cache''])"
    by (simp add: RECOVERY_SIZE_def)
  then have "resolved (get_args argv w) = Inr (''recovery'' # take (MAX_ARGS - 1) [''--wipe_cache''])"
    using h by (intro resolved_from_armed_block) simp_all
  then show "resolved (get_args argv w) = Inr [''recovery'', ''--wipe_cache'']"
    by (simp add: MAX_ARGS_def)
next
  assume h: "get_args argv w = Inr (argv', w') \<and> bcb_write_ok w \<and> (\<forall>a\<in>set argv. NUL \<notin> set a) \<and>
    (\<forall>a\<in>set (drop 1 argv'). a \<noteq> [] \<and> LF \<notin> set a) \<and> drop 1 argv' \<noteq> [] \<and>
    length (''recovery'' @ [LF] @ concat (map (\<lambda>a. a @ [LF]) (drop 1 argv'))) \<le> RECOVERY_SIZE - 1 \<and>
    bcb_store wn = bcb_store w' \<and> bcb_read_ok wn \<and> length argvn \<le> 1"
  then have g: "get_args argv w = Inr (argv', w')" and n: "\<forall>a\<in>set argv. NUL \<notin> set a" by blast+
  have s: "bcb_store wn = write_back (boot_after_scan (fst (get_bootloader_message w)) argv) argv'"
    using h stored_block[OF g] by simp
  have "cstr (recovery (bcb_store wn)) =
      take (RECOVERY_SIZE - 1) (''recovery'' @ LF # concat (map (\<lambda>a. a @ [LF]) (drop 1 argv')))"
    unfolding s using get_args_c_strings[OF g n] by (rule write_back_recovery_c_strings)
  also have "\<dots> = ''recovery'' @ LF # concat (map (\<lambda>a. a @ [LF]) (drop 1 argv'))"
    using h by simp
  finally have "take (RECOVERY_SIZE - 1) (cstr (recovery (bcb_store wn))) =
      ''recovery'' @ LF # concat (map (\<lambda>a. a @ [LF]) (drop 1 argv'))"
    using h by simp
  then show "resolved (get_args argvn wn) = Inr (''recovery'' # take (MAX_ARGS - 1) (drop 1 argv'))"
    using h by (intro resolved_from_armed_block) blast+
qed

theorem get_args_resumes_witness:
  "(length [''/sbin/recovery''] \<le> 1 \<and> bcb_read_ok (idle\<lparr>bcb_store := wipe_cache_block\<rparr>) \<and>
    cstr (recovery (bcb_store (idle\<lparr>bcb_store := wipe_cache_block\<rparr>))) =
      ''recovery'' @ [LF] @ ''--wipe_cache'' @ [LF] \<and>
    resolved (get_args [''/sbin/recovery''] (idle\<lparr>bcb_store := wipe_cache_block\<rparr>)) =
      Inr [''recovery'', ''--wipe_cache'']) \<and>
   (\<exists>w'. get_args [''/sbin/recovery'', ''--wipe_cache''] idle =
            Inr ([''/sbin/recovery'', ''--wipe_cache''], w') \<and>
      bcb_write_ok idle \<and>
      (\<forall>a\<in>set [''/sbin/recovery'', ''--wipe_cache'']. NUL \<notin> set a) \<and>
      (\<forall>a\<in>set (drop 1 [''/sbin/recovery'', ''--wipe_cache'']). a \<noteq> [] \<and> LF \<notin> set a) \<and>
      drop 1 [''/sbin/recovery'', ''--wipe_cache''] \<noteq> [] \<and>
      length (''recovery'' @ [LF] @
              concat (map (\<lambda>a. a @ [LF]) (drop 1 [''/sbin/recovery'', ''--wipe_cache''])))
        \<le> RECOVERY_SIZE - 1 \<and>
      bcb_store w' = bcb_store w' \<and> bcb_read_ok w' \<and> length [''/sbin/recovery''] \<le> 1 \<and>
      resolved (get_args [''/sbin/recovery''] w') =
        Inr (''recovery'' # take (MAX_ARGS - 1) (drop 1 [''/sbin/recovery'', ''--wipe_cache''])))"
proof -
  let ?w = "idle\<lparr>bcb_store := wipe_cache_block\<rparr>"
  let ?argv = "[''/sbin/recovery'', ''--wipe_cache'']"
  have r: "bcb_read_ok ?w" by (simp add: idle_def)
  have c: "cstr (recovery (bcb_store ?w)) = ''recovery'' @ [LF] @ ''--wipe_cache'' @ [LF]"
    by (simp add: wipe_cache_block_def cstr_def)
  have a: "resolved (get_args [''/sbin/recovery''] ?w) = Inr [''recovery'', ''--wipe_cache'']"
    using get_args_resumes[of "[''/sbin/recovery'']" ?w] r c by simp
  obtain w' where g: "get_args ?argv idle = Inr (?argv, w')"
    by (simp add: get_args_explicit)
  have r': "bcb_read_ok w'" using get_args_keeps_flags(1)[OF g] by (simp add: idle_def)
  have l: "length (''recovery'' @ [LF] @ concat (map (\<lambda>a. a @ [LF]) (drop 1 ?argv))) \<le> RECOVERY_SIZE - 1"
    by (simp add: RECOVERY_SIZE_def)
  have b: "resolved (get_args [''/sbin/recovery''] w') =
      Inr (''recovery'' # take (MAX_ARGS - 1) (drop 1 ?argv))"
    using get_args_resumes[where argv = ?argv and w = idle and argv' = ?argv and w' = w'
        and wn = w' and argvn = "[''/sbin/recovery'']"] g r' l
    by (simp add: idle_def)
  show ?thesis using r c a g r' l b by (simp add: idle_def)
qed

text \<open>
  C3 as it is stated fails: started as \<open>/sbin/recovery\<close> with the block armed with
  \<open>--wipe_cache\<close>, the vector starts with \<open>recovery\<close>; and an empty argument written to
  the block is not there when the block is resolved again.
\<close>

theorem get_args_resumes_counterexample:
  "resolved (get_args [''/sbin/recovery''] (idle\<lparr>bcb_store := wipe_cache_block\<rparr>))
     = Inr [''recovery'', ''--wipe_cache''] \<and>
   resolved (get_args [''/sbin/recovery''] (idle\<lparr>bcb_store := wipe_cache_block\<rparr>))
     \<noteq> Inr [''/sbin/recovery'', ''--wipe_cache''] \<and>
   resolved (get_args [''/sbin/recovery'']
               (snd (projr (get_args [''/sbin/recovery'', [], ''--wipe_cache''] idle))))
     = Inr [''recovery'', ''--wipe_cache'']"
proof -
  let ?w = "idle\<lparr>bcb_store := wipe_cache_block\<rparr>"
  have "take (RECOVERY_SIZE - 1) (cstr (recovery (bcb_store ?w))) =
      ''recovery'' @ LF # concat (map (\<lambda>a. a @ [LF]) [''--wipe_cache''])"
    by (simp add: wipe_cache_block_def cstr_def RECOVERY_SIZE_def)
  then have "resolved (get_args [''/sbin/recovery''] ?w) =
      Inr (''recovery'' # take (MAX_ARGS - 1) [''--wipe_cache''])"
    by (intro resolved_from_armed_block) (simp_all add: idle_def)
  then have a: "resolved (get_args [''/sbin/recovery''] ?w) = Inr [''recovery'', ''--wipe_cache'']"
    by (simp add: MAX_ARGS_def)
  let ?argv = "[''/sbin/recovery'', [], ''--wipe_cache'']"
  let ?w2 = "snd (projr (get_args ?argv idle))"
  have g: "get_args ?argv idle = Inr (?argv, ?w2)"
    by (simp add: get_args_explicit)
  have s: "bcb_store ?w2 =
      write_back (boot_after_scan (fst (get_bootloader_message idle)) ?argv) ?argv"
    using g by (rule stored_block) (simp add: idle_fields)
  have r: "bcb_read_ok ?w2"
    using get_args_frame[OF g]
    by (auto simp: set_bootloader_message_def Let_def emit_def logged_def idle_fields)
  have t: "take (RECOVERY_SIZE - 1) (cstr (recovery (bcb_store ?w2))) =
      ''recovery'' @ LF # (LF # ''--wipe_cache'' @ [LF])"
    unfolding s by (subst write_back_recovery_c_strings) (simp_all add: RECOVERY_SIZE_def)
  have v: "args_from_boot_message (fst (get_bootloader_message ?w2)) [''/sbin/recovery''] ?w2 =
      (''recovery'' # boot_lines (MAX_ARGS - 1) (LF # ''--wipe_cache'' @ [LF]),
       emit (LOGI Got_arguments_from_boot_message) ?w2)"
    using r t by (intro args_from_armed_block) simp_all
  have "boot_lines (MAX_ARGS - 1) (LF # ''--wipe_cache'' @ [LF]) = [''--wipe_cache'']"
    by (simp add: MAX_ARGS_def boot_lines_pos strtok_def)
  then have b: "resolved (get_args [''/sbin/recovery''] ?w2) = Inr [''recovery'', ''--wipe_cache'']"
    unfolding resolved_get_args v by (simp add: args_from_command_file_def)
  show ?thesis using a b by simp
qed

text \<open>
  C7. With at most the program name on the command line: a recovery field whose first byte is
  neither 0 nor 255 and whose first line is neither empty nor the word \<open>recovery\<close> is
  reported once as a bad boot message, and the run goes on with the command file, with the
  result the command file gives for the vector of the command line. A field whose first byte
  is 0 or 255 is passed over without a report, with the same result.
\<close>

theorem get_args_bad_boot_message:
  assumes "length argv \<le> 1"
  shows "(\<not> unset (scanned w ! 0) \<and>
          takeWhile (\<lambda>c. c \<noteq> LF) (cstr (scanned w)) \<noteq> [] \<and>
          takeWhile (\<lambda>c. c \<noteq> LF) (cstr (scanned w)) \<noteq> ''recovery''
          \<longrightarrow> resolved (get_args argv w) = resolved (args_from_command_file argv w) \<and>
              (\<forall>argv' w'. get_args argv w = Inr (argv', w')
                 \<longrightarrow> bad_boot_messages w' = bad_boot_messages w + 1)) \<and>
         (unset (scanned w ! 0)
          \<longrightarrow> resolved (get_args argv w) = resolved (args_from_command_file argv w) \<and>
              (\<forall>argv' w'. get_args argv w = Inr (argv', w')
                 \<longrightarrow> bad_boot_messages w' = bad_boot_messages w))"
proof (intro conjI impI allI)
  assume g: "\<not> unset (scanned w ! 0) \<and>
          takeWhile (\<lambda>c. c \<noteq> LF) (cstr (scanned w)) \<noteq> [] \<and>
          takeWhile (\<lambda>c. c \<noteq> LF) (cstr (scanned w)) \<noteq> ''recovery''"
  then have a: "args_from_boot_message (fst (get_bootloader_message w)) argv w =
           (argv, emit (LOGE Bad_boot_message) w)"
    using assms args_from_garbage_block by blast
  show "resolved (get_args argv w) = resolved (args_from_command_file argv w)"
    by (simp add: resolved_get_args a)
  fix argv' w'
  assume "get_args argv w = Inr (argv', w')"
  then have "bad_boot_messages w' = bad_boot_messages (emit (LOGE Bad_boot_message) w)"
    by (simp add: get_args_bad_boot_messages a)
  then show "bad_boot_messages w' = bad_boot_messages w + 1"
    by (simp add: bad_boot_messages_def emit_def)
next
  assume u: "unset (scanned w ! 0)"
  then have a: "args_from_boot_message (fst (get_bootloader_message w)) argv w = (argv, w)"
    by (rule args_from_unset_block)
  show "resolved (get_args argv w) = resolved (args_from_command_file argv w)"
    by (simp add: resolved_get_args a)
  fix argv' w'
  assume "get_args argv w = Inr (argv', w')"
  then show "bad_boot_messages w' = bad_boot_messages w"
    by (simp add: get_args_bad_boot_messages a)
qed

theorem get_args_bad_boot_message_witness:
  "length [''/sbin/recovery''] \<le> 1 \<and>
   (\<not> unset (scanned (idle\<lparr>bcb_store := garbage_block\<rparr>) ! 0) \<and>
    takeWhile (\<lambda>c. c \<noteq> LF) (cstr (scanned (idle\<lparr>bcb_store := garbage_block\<rparr>))) \<noteq> [] \<and>
    takeWhile (\<lambda>c. c \<noteq> LF) (cstr (scanned (idle\<lparr>bcb_store := garbage_block\<rparr>))) \<noteq> ''recovery'' \<and>
    resolved (get_args [''/sbin/recovery''] (idle\<lparr>bcb_store := garbage_block\<rparr>)) =
      resolved (args_from_command_file [''/sbin/recovery''] (idle\<lparr>bcb_store := garbage_block\<rparr>)) \<and>
    (\<exists>argv' w'. get_args [''/sbin/recovery''] (idle\<lparr>bcb_store := garbage_block\<rparr>) = Inr (argv', w')
       \<and> bad_boot_messages w' = bad_boot_messages (idle\<lparr>bcb_store := garbage_block\<rparr>) + 1)) \<and>
   (unset (scanned idle ! 0) \<and>
    resolved (get_args [''/sbin/recovery''] idle) =
      resolved (args_from_command_file [''/sbin/recovery''] idle) \<and>
    (\<exists>argv' w'. get_args [''/sbin/recovery''] idle = Inr (argv', w')
       \<and> bad_boot_messages w' = bad_boot_messages idle))"
proof -
  let ?g = "idle\<lparr>bcb_store := garbage_block\<rparr>"
  have l: "length [''/sbin/recovery''] \<le> 1" by simp
  have h: "\<not> unset (scanned ?g ! 0)"
    "takeWhile (\<lambda>c. c \<noteq> LF) (cstr (scanned ?g)) \<noteq> []"
    "takeWhile (\<lambda>c. c \<noteq> LF) (cstr (scanned ?g)) \<noteq> ''recovery''"
    by (simp_all add: scanned_garbage unset_def)
  have i: "scanned idle ! 0 = NUL"
    unfolding scanned_def
    by (subst scanned_first_byte)
       (simp_all add: idle_def zeroed_def RECOVERY_SIZE_def eval_nat_numeral)
  then have u: "unset (scanned idle ! 0)" by (simp add: unset_def)
  have "files ?g COMMAND_FILE = None" by (simp add: idle_def)
  then obtain v1 w1 where r1: "get_args [''/sbin/recovery''] ?g = Inr (v1, w1)"
    using get_args_without_command_file by blast
  have "files idle COMMAND_FILE = None" by (simp add: idle_def)
  then obtain v2 w2 where r2: "get_args [''/sbin/recovery''] idle = Inr (v2, w2)"
    using get_args_without_command_file by blast
  have g1: "resolved (get_args [''/sbin/recovery''] ?g) =
      resolved (args_from_command_file [''/sbin/recovery''] ?g)"
    and c1: "bad_boot_messages w1 = bad_boot_messages ?g + 1"
    using get_args_bad_boot_message[OF l, of ?g] h r1 by blast+
  have g2: "resolved (get_args [''/sbin/recovery''] idle) =
      resolved (args_from_command_file [''/sbin/recovery''] idle)"
    and c2: "bad_boot_messages w2 = bad_boot_messages idle"
    using get_args_bad_boot_message[OF l, of idle] u r2 by blast+
  show ?thesis using l h u g1 g2 r1 c1 r2 c2 by blast
qed

text \<open>
  C8. When the text to write is longer than the 1023 bytes the recovery field has in front of
  its terminating NUL, the block handed to \<^verbatim>\<open>set_bootloader_message\<close> still has its
  three arrays at their sizes of 32, 32 and 1024 bytes, the string \<open>boot-recovery\<close> in the
  command field, the status field as it was read, and in the recovery field the first 1023
  bytes of the text with a NUL in the last byte. A later run that finds this block in the
  store and has at most the program name on its command line reads it as an armed block: the
  vector starts with \<open>recovery\<close>, followed by the lines of what was kept.
\<close>

theorem get_args_truncates:
  assumes "get_args argv w = Inr (argv', w')" and "\<forall>a\<in>set argv. NUL \<notin> set a"
    and "RECOVERY_SIZE - 1 < length (''recovery'' @ [LF] @ concat (map (\<lambda>a. a @ [LF]) (drop 1 argv')))"
  shows "\<exists>b. blocks (trace w') = blocks (trace w) @ [b] \<and>
     length (command b) = COMMAND_SIZE \<and> length (status b) = STATUS_SIZE \<and>
     length (recovery b) = RECOVERY_SIZE \<and>
     cstr (command b) = ''boot-recovery'' \<and>
     status b = status (fst (get_bootloader_message w)) \<and>
     cstr (recovery b) =
       take (RECOVERY_SIZE - 1) (''recovery'' @ [LF] @ concat (map (\<lambda>a. a @ [LF]) (drop 1 argv'))) \<and>
     recovery b ! (RECOVERY_SIZE - 1) = NUL \<and>
     (\<forall>w2 argv2. bcb_store w2 = b \<and> bcb_read_ok w2 \<and> length argv2 \<le> 1 \<longrightarrow>
        args_from_boot_message (fst (get_bootloader_message w2)) argv2 w2 =
          (''recovery'' # boot_lines (MAX_ARGS - 1) (drop 9 (cstr (recovery b))),
           emit (LOGI Got_arguments_from_boot_message) w2))"
proof -
  let ?boot = "fst (get_bootloader_message w)"
  let ?b = "write_back (boot_after_scan ?boot argv) argv'"
  let ?text = "''recovery'' @ [LF] @ concat (map (\<lambda>a. a @ [LF]) (drop 1 argv'))"
  obtain ls where ls: "\<forall>e\<in>set ls. is_log e"
    and w': "w' = set_bootloader_message ?b (logged w ls)"
    using get_args_frame[OF assms(1)] by blast
  have t: "blocks (trace w') = blocks (trace w) @ [?b]"
    using blocks_logs[OF ls]
    by (simp add: w' set_bootloader_message_def Let_def emit_def logged_def blocks_append)
  have sz: "length (command ?b) = COMMAND_SIZE" "length (status ?b) = STATUS_SIZE"
    "length (recovery ?b) = RECOVERY_SIZE" "status ?b = status ?boot"
    by (simp_all add: write_back_sizes boot_after_scan_fields get_bootloader_message_sizes)
  have r: "cstr (recovery ?b) = take (RECOVERY_SIZE - 1) ?text"
    using write_back_recovery_c_strings[OF get_args_c_strings[OF assms(1,2)]] by simp
  then have "length (cstr (recovery ?b)) = RECOVERY_SIZE - 1"
    using assms(3) by (simp del: length_append)
  then have z: "recovery ?b ! (RECOVERY_SIZE - 1) = NUL"
    using NUL_behind_cstr[of "recovery ?b"] sz(3) by (simp add: RECOVERY_SIZE_def)
  have n: "args_from_boot_message (fst (get_bootloader_message w2)) argv2 w2 =
          (''recovery'' # boot_lines (MAX_ARGS - 1) (drop 9 (cstr (recovery ?b))),
           emit (LOGI Got_arguments_from_boot_message) w2)"
    if h: "bcb_store w2 = ?b \<and> bcb_read_ok w2 \<and> length argv2 \<le> 1" for w2 argv2
  proof -
    have "take (RECOVERY_SIZE - 1) (cstr (recovery (bcb_store w2))) = take (RECOVERY_SIZE - 1) ?text"
      using h r by simp
    also have "\<dots> = ''recovery'' @ LF # take (RECOVERY_SIZE - 10) (concat (map (\<lambda>a. a @ [LF]) (drop 1 argv')))"
      by (simp add: RECOVERY_SIZE_def)
    finally have a: "take (RECOVERY_SIZE - 1) (cstr (recovery (bcb_store w2))) =
        ''recovery'' @ LF # take (RECOVERY_SIZE - 10) (concat (map (\<lambda>a. a @ [LF]) (drop 1 argv')))" .
    have "drop 9 (cstr (recovery ?b)) = take (RECOVERY_SIZE - 10) (concat (map (\<lambda>a. a @ [LF]) (drop 1 argv')))"
      unfolding r by (simp add: RECOVERY_SIZE_def)
    then show ?thesis using args_from_armed_block[OF _ _ a, of argv2 w2] h by simp
  qed
  show ?thesis using t sz r z n write_back_command[of "boot_after_scan ?boot argv" argv'] by blast
qed

theorem get_args_truncates_witness:
  "\<exists>argv' w'. get_args [''/sbin/recovery'', replicate 1100 (CHR ''a'')] idle = Inr (argv', w') \<and>
     (\<forall>a\<in>set [''/sbin/recovery'', replicate 1100 (CHR ''a'')]. NUL \<notin> set a) \<and>
     RECOVERY_SIZE - 1 < length (''recovery'' @ [LF] @ concat (map (\<lambda>a. a @ [LF]) (drop 1 argv'))) \<and>
     (\<exists>b. blocks (trace w') = blocks (trace idle) @ [b] \<and>
       length (command b) = COMMAND_SIZE \<and> length (status b) = STATUS_SIZE \<and>
       length (recovery b) = RECOVERY_SIZE \<and>
       cstr (command b) = ''boot-recovery'' \<and>
       status b = status (fst (get_bootloader_message idle)) \<and>
       cstr (recovery b) =
         take (RECOVERY_SIZE - 1) (''recovery'' @ [LF] @ concat (map (\<lambda>a. a @ [LF]) (drop 1 argv'))) \<and>
       recovery b ! (RECOVERY_SIZE - 1) = NUL \<and>
       (\<forall>w2 argv2. bcb_store w2 = b \<and> bcb_read_ok w2 \<and> length argv2 \<le> 1 \<longrightarrow>
          args_from_boot_message (fst (get_bootloader_message w2)) argv2 w2 =
            (''recovery'' # boot_lines (MAX_ARGS - 1) (drop 9 (cstr (recovery b))),
             emit (LOGI Got_arguments_from_boot_message) w2)))"
proof -
  let ?argv = "[''/sbin/recovery'', replicate 1100 (CHR ''a'')]"
  obtain w' where g: "get_args ?argv idle = Inr (?argv, w')"
    by (simp add: get_args_explicit)
  have n: "\<forall>a\<in>set ?argv. NUL \<notin> set a" by simp
  have l: "RECOVERY_SIZE - 1 < length (''recovery'' @ [LF] @ concat (map (\<lambda>a. a @ [LF]) (drop 1 ?argv)))"
    by (simp add: RECOVERY_SIZE_def)
  show ?thesis using g n l get_args_truncates[OF g n l] by blast
qed

text \<open>
  C4. Two calls of \<^verbatim>\<open>finish_recovery\<close> in a row leave the control block and the command
  file as one call does, in every world and for every intent. When the store takes the write
  the block is the zeroed one; when the cache volume mounts, its path translates and files
  can be unlinked, the command file is gone after the first call, and neither the first nor
  the second call warns that it could not be unlinked. A command file that is missing when
  \<^verbatim>\<open>finish_recovery\<close> is called (\<^verbatim>\<open>unlink\<close> fails with \<^verbatim>\<open>ENOENT\<close>) gives no
  warning either.
\<close>

theorem finish_recovery_idempotent:
  "bcb_store (finish_recovery i (finish_recovery i w)) = bcb_store (finish_recovery i w) \<and>
   files (finish_recovery i (finish_recovery i w)) COMMAND_FILE =
     files (finish_recovery i w) COMMAND_FILE \<and>
   (bcb_write_ok w \<longrightarrow> bcb_store (finish_recovery i w) = zeroed) \<and>
   (mount_ok w \<and> path_ok w \<and> unlink_ok w \<longrightarrow>
      files (finish_recovery i w) COMMAND_FILE = None \<and>
      unlink_warnings (finish_recovery i w) = unlink_warnings w \<and>
      unlink_warnings (finish_recovery i (finish_recovery i w)) = unlink_warnings w) \<and>
   (mount_ok w \<and> path_ok w \<and> files w COMMAND_FILE = None \<longrightarrow>
      files (finish_recovery i w) COMMAND_FILE = None \<and>
      unlink_warnings (finish_recovery i w) = unlink_warnings w)"
  by (simp add: finish_recovery_fields)

theorem finish_recovery_idempotent_witness:
  "bcb_write_ok busy \<and> bcb_store (finish_recovery (Some ''done'') busy) = zeroed \<and>
   mount_ok busy \<and> path_ok busy \<and> unlink_ok busy \<and>
   files (finish_recovery (Some ''done'') busy) COMMAND_FILE = None \<and>
   unlink_warnings (finish_recovery (Some ''done'') busy) = unlink_warnings busy \<and>
   unlink_warnings (finish_recovery (Some ''done'') (finish_recovery (Some ''done'') busy)) =
     unlink_warnings busy \<and>
   files idle COMMAND_FILE = None \<and>
   files (finish_recovery (Some ''done'') idle) COMMAND_FILE = None \<and>
   unlink_warnings (finish_recovery (Some ''done'') idle) = unlink_warnings idle"
proof -
  have b: "bcb_write_ok busy" "mount_ok busy" "path_ok busy" "unlink_ok busy"
    by (simp_all add: busy_def with_command_file_def idle_def)
  have i: "mount_ok idle" "path_ok idle" "files idle COMMAND_FILE = None"
    by (simp_all add: idle_def)
  show ?thesis
    using b i finish_recovery_idempotent[of "Some ''done''" busy]
      finish_recovery_idempotent[of "Some ''done''" idle]
    by blast
qed

text \<open>
  C5, as the code has it. When the cache volume mounts, its path translates, the durable log
  can be opened and the bytes written reach it, and the temporary log holds no NUL: a call
  that finds \<open>a\<close> behind the offset appends \<open>a\<close>, and a later call that finds \<open>b\<close> more
  appends \<open>b\<close>, so that the durable log has received \<open>a\<close> and \<open>b\<close> once. The offset moves to
  the end of the temporary log in every call in which both logs could be opened, whether or
  not the bytes reached the durable log, and stays where it was in every other call.
\<close>

theorem finish_recovery_copies_log_once:
  "(mount_ok w \<and> path_ok w \<and> fopen_w_ok w \<and> fwrite_ok w \<and>
    tmp_log w = Some (p @ a) \<and> tmplog_offset w = length p \<and> NUL \<notin> set a \<and> NUL \<notin> set b
    \<longrightarrow> files (finish_recovery i w) LOG_FILE = Some (log_content w @ a) \<and>
        tmplog_offset (finish_recovery i w) = length (p @ a) \<and>
        files (finish_recovery j ((finish_recovery i w)\<lparr>tmp_log := Some (p @ a @ b)\<rparr>)) LOG_FILE =
          Some (log_content w @ a @ b) \<and>
        tmplog_offset (finish_recovery j ((finish_recovery i w)\<lparr>tmp_log := Some (p @ a @ b)\<rparr>)) =
          length (p @ a @ b)) \<and>
   tmplog_offset (finish_recovery i w) =
     (case tmp_log w of
        None \<Rightarrow> tmplog_offset w
      | Some t \<Rightarrow> if mount_ok w \<and> path_ok w \<and> fopen_w_ok w
                  then max (tmplog_offset w) (length t) else tmplog_offset w)"
proof (intro conjI impI)
  show "tmplog_offset (finish_recovery i w) =
     (case tmp_log w of
        None \<Rightarrow> tmplog_offset w
      | Some t \<Rightarrow> if mount_ok w \<and> path_ok w \<and> fopen_w_ok w
                  then max (tmplog_offset w) (length t) else tmplog_offset w)"
    by (simp add: finish_recovery_fields offset_after_def)
next
  assume h: "mount_ok w \<and> path_ok w \<and> fopen_w_ok w \<and> fwrite_ok w \<and>
    tmp_log w = Some (p @ a) \<and> tmplog_offset w = length p \<and> NUL \<notin> set a \<and> NUL \<notin> set b"
  let ?w1 = "finish_recovery i w"
  let ?w2 = "?w1\<lparr>tmp_log := Some (p @ a @ b)\<rparr>"
  show f1: "files ?w1 LOG_FILE = Some (log_content w @ a)"
    using h by (intro finish_recovery_appends) blast+
  show o1: "tmplog_offset ?w1 = length (p @ a)"
    using h by (simp add: finish_recovery_fields offset_after_def)
  have l: "log_content ?w2 = log_content w @ a" using f1 by (simp add: log_content_def)
  have "files (finish_recovery j ?w2) LOG_FILE = Some (log_content ?w2 @ b)"
    using h o1 by (intro finish_recovery_appends[where p = "p @ a"]) (simp_all add: finish_recovery_fields)
  then show "files (finish_recovery j ?w2) LOG_FILE = Some (log_content w @ a @ b)"
    by (simp add: l)
  show "tmplog_offset (finish_recovery j ?w2) = length (p @ a @ b)"
    using h o1 by (simp add: finish_recovery_fields offset_after_def)
qed

theorem finish_recovery_copies_log_once_witness:
  "mount_ok idle \<and> path_ok idle \<and> fopen_w_ok idle \<and> fwrite_ok idle \<and>
   tmp_log (idle\<lparr>tmp_log := Some (''boot'' @ [LF])\<rparr>) = Some ([] @ ''boot'' @ [LF]) \<and>
   tmplog_offset idle = length ([] :: string) \<and>
   NUL \<notin> set (''boot'' @ [LF]) \<and> NUL \<notin> set (''done'' @ [LF]) \<and>
   files (finish_recovery None (idle\<lparr>tmp_log := Some (''boot'' @ [LF])\<rparr>)) LOG_FILE =
     Some (''boot'' @ [LF]) \<and>
   files (finish_recovery (Some ''done'')
            ((finish_recovery None (idle\<lparr>tmp_log := Some (''boot'' @ [LF])\<rparr>))
               \<lparr>tmp_log := Some (''boot'' @ [LF] @ ''done'' @ [LF])\<rparr>)) LOG_FILE =
     Some (''boot'' @ [LF] @ ''done'' @ [LF]) \<and>
   tmplog_offset (finish_recovery (Some ''done'')
            ((finish_recovery None (idle\<lparr>tmp_log := Some (''boot'' @ [LF])\<rparr>))
               \<lparr>tmp_log := Some (''boot'' @ [LF] @ ''done'' @ [LF])\<rparr>)) = 10"
proof -
  let ?w = "idle\<lparr>tmp_log := Some (''boot'' @ [LF])\<rparr>"
  have h: "mount_ok ?w \<and> path_ok ?w \<and> fopen_w_ok ?w \<and> fwrite_ok ?w \<and>
    tmp_log ?w = Some ([] @ ''boot'' @ [LF]) \<and> tmplog_offset ?w = length ([] :: string) \<and>
    NUL \<notin> set (''boot'' @ [LF]) \<and> NUL \<notin> set (''done'' @ [LF])"
    by (simp add: idle_def)
  have l: "log_content ?w = []" by (simp add: log_content_def idle_def)
  show ?thesis
    using h l finish_recovery_copies_log_once[where w = ?w and p = "[]" and a = "''boot'' @ [LF]"
        and b = "''done'' @ [LF]" and i = None and j = "Some ''done''"]
    by (simp add: idle_def)
qed

text \<open>
  C5 as it is stated fails: when the bytes written to the durable log do not reach it in the
  first call, the offset has moved behind them all the same, and the second call appends only
  what came later.
\<close>

theorem finish_recovery_copies_log_once_counterexample:
  "tmplog_offset (finish_recovery None (idle\<lparr>tmp_log := Some (''boot'' @ [LF]), fwrite_ok := False\<rparr>)) = 5 \<and>
   files (finish_recovery None (idle\<lparr>tmp_log := Some (''boot'' @ [LF]), fwrite_ok := False\<rparr>)) LOG_FILE
     = Some [] \<and>
   files (finish_recovery None
            ((finish_recovery None (idle\<lparr>tmp_log := Some (''boot'' @ [LF]), fwrite_ok := False\<rparr>))
               \<lparr>tmp_log := Some (''boot'' @ [LF] @ ''done'' @ [LF]), fwrite_ok := True\<rparr>)) LOG_FILE
     = Some (''done'' @ [LF])"
proof -
  let ?w0 = "idle\<lparr>tmp_log := Some (''boot'' @ [LF]), fwrite_ok := False\<rparr>"
  let ?w1 = "finish_recovery None ?w0"
  let ?w2 = "?w1\<lparr>tmp_log := Some (''boot'' @ [LF] @ ''done'' @ [LF]), fwrite_ok := True\<rparr>"
  have o: "tmplog_offset ?w1 = 5"
    by (simp add: finish_recovery_fields offset_after_def idle_def)
  have "files (copy_logs (write_intent None ?w0)) LOG_FILE = Some (log_content (write_intent None ?w0))"
    by (intro copy_logs_nothing_written) (simp_all add: write_intent_fields idle_def)
  then have f: "files ?w1 LOG_FILE = Some []"
    by (simp add: finish_recovery_log_file log_content_def write_intent_fields idle_def)
  have "files (finish_recovery None ?w2) LOG_FILE = Some (log_content ?w2 @ (''done'' @ [LF]))"
    using o by (intro finish_recovery_appends[where p = "''boot'' @ [LF]"])
      (simp_all add: finish_recovery_fields idle_def)
  then have "files (finish_recovery None ?w2) LOG_FILE = Some (''done'' @ [LF])"
    using f by (simp add: log_content_def)
  then show ?thesis using o f by simp
qed

text \<open>
  C6. Not every vector gets a status. \<^verbatim>\<open>OPTIONS\<close> does not end with the entry of zeros
  that \<^verbatim>\<open>getopt_long\<close> needs to know where the table ends, so the search for a name that
  is not in the table, as in \<open>--bogus\<close>, leaves the table: \<^verbatim>\<open>main\<close> started with the
  program name and that option, in any world and with any collaborators, ends in the loop
  over the options and sets no status. The case \<open>?\<close> of the \<^verbatim>\<open>switch\<close>, which reports an
  invalid argument and goes on, is not reached.
\<close>

theorem main_option_not_in_table:
  "parse_options [''/sbin/recovery'', ''--bogus''] w = Inl Options_table_overrun \<and>
   main c [''/sbin/recovery'', ''--bogus''] w = Inl Options_table_overrun"
  by (simp add: main_def get_args_explicit parse_unknown_option)

text \<open>
  C9. With a status other than \<^verbatim>\<open>INSTALL_SUCCESS\<close>, \<^verbatim>\<open>main\<close> sets the error icon and,
  behind the three mounts, enters \<^verbatim>\<open>prompt_and_wait\<close>, which shows the menu; up to there
  nothing happens but what \<^verbatim>\<open>finish_recovery(NULL)\<close> does, and in particular no reboot. With
  the status \<^verbatim>\<open>INSTALL_SUCCESS\<close> the menu is never shown, the error icon is not set, and
  \<^verbatim>\<open>main\<close> does not wait for a key.
\<close>

theorem after_command_error_prompts:
  "(st \<noteq> INSTALL_SUCCESS \<longrightarrow>
      (\<exists>es ys. trace (snd (after_command c opts st w)) =
          trace w @
          [Ui_set_background BACKGROUND_ICON_ERROR,
           System ''echo 0 > /sys/class/leds/keyboard-backlight/brightness'',
           Ensure_root_path_mounted ''SYSTEM:'', Ensure_root_path_mounted ''DATA:'',
           Ensure_root_path_mounted ''SDCARD:''] @
          es @ Ui_reset_progress # Get_menu_selection # ys \<and>
        (\<forall>e\<in>set es. retiring e))) \<and>
   (st = INSTALL_SUCCESS \<longrightarrow>
      fst (after_command c opts st w) \<noteq> Waits_for_key \<and>
      (\<exists>es. trace (snd (after_command c opts st w)) = trace w @ es \<and>
         Get_menu_selection \<notin> set es \<and> Ui_set_background BACKGROUND_ICON_ERROR \<notin> set es))"
proof (intro conjI impI)
  assume e: "st \<noteq> INSTALL_SUCCESS"
  let ?pre = "[Ui_set_background BACKGROUND_ICON_ERROR,
           System ''echo 0 > /sys/class/leds/keyboard-backlight/brightness'',
           Ensure_root_path_mounted ''SYSTEM:'', Ensure_root_path_mounted ''DATA:'',
           Ensure_root_path_mounted ''SDCARD:'']"
  let ?w2 = "w\<lparr>trace := trace w @ ?pre\<rparr>"
  obtain es ys where p: "trace (snd (prompt_and_wait (selections c) ?w2)) =
      trace ?w2 @ es @ Ui_reset_progress # Get_menu_selection # ys" and r: "\<forall>e\<in>set es. retiring e"
    using prompt_and_wait_trace by blast
  obtain res w3 where pw: "prompt_and_wait (selections c) ?w2 = (res, w3)"
    by (cases "prompt_and_wait (selections c) ?w2")
  have a: "after_command c opts st w =
      (case res of None \<Rightarrow> (Waits_for_key, w3) | Some d \<Rightarrow> leave c opts d w3)"
    using e pw by (simp add: after_command_def Let_def emit_def)
  have "\<exists>zs. trace (snd (after_command c opts st w)) = trace w3 @ zs"
  proof (cases res)
    case None
    then show ?thesis using a by simp
  next
    case (Some d)
    then show ?thesis using a leave_trace[of c opts d w3] by auto
  qed
  then obtain zs where "trace (snd (after_command c opts st w)) = trace w3 @ zs" ..
  then have "trace (snd (after_command c opts st w)) =
      trace w @ ?pre @ es @ Ui_reset_progress # Get_menu_selection # (ys @ zs)"
    using p pw by simp
  then show "\<exists>es ys. trace (snd (after_command c opts st w)) =
          trace w @ ?pre @ es @ Ui_reset_progress # Get_menu_selection # ys \<and>
        (\<forall>e\<in>set es. retiring e)"
    using r by blast
next
  assume s: "st = INSTALL_SUCCESS"
  let ?pre = "[System ''echo 0 > /sys/class/leds/keyboard-backlight/brightness'',
           Ensure_root_path_mounted ''SYSTEM:'', Ensure_root_path_mounted ''DATA:'',
           Ensure_root_path_mounted ''SDCARD:'']"
  let ?w2 = "w\<lparr>trace := trace w @ ?pre\<rparr>"
  have a: "after_command c opts st w = leave c opts 1 ?w2"
    using s by (simp add: after_command_def Let_def emit_def)
  show "fst (after_command c opts st w) \<noteq> Waits_for_key"
    unfolding a by (rule leave_outcome)
  obtain es where es: "trace (snd (leave c opts 1 ?w2)) = trace ?w2 @ es"
    "Get_menu_selection \<notin> set es" "Ui_set_background BACKGROUND_ICON_ERROR \<notin> set es"
    using leave_trace by blast
  then have "trace (snd (after_command c opts st w)) = trace w @ (?pre @ es)"
    unfolding a by simp
  moreover have "Get_menu_selection \<notin> set (?pre @ es)"
    "Ui_set_background BACKGROUND_ICON_ERROR \<notin> set (?pre @ es)"
    using es(2,3) by simp_all
  ultimately show "\<exists>es. trace (snd (after_command c opts st w)) = trace w @ es \<and>
         Get_menu_selection \<notin> set es \<and> Ui_set_background BACKGROUND_ICON_ERROR \<notin> set es"
    by blast
qed

theorem after_command_error_prompts_witness:
  "INSTALL_ERROR \<noteq> INSTALL_SUCCESS \<and>
   (\<exists>es ys. trace (snd (after_command data_fails no_options INSTALL_ERROR idle)) =
          trace idle @
          [Ui_set_background BACKGROUND_ICON_ERROR,
           System ''echo 0 > /sys/class/leds/keyboard-backlight/brightness'',
           Ensure_root_path_mounted ''SYSTEM:'', Ensure_root_path_mounted ''DATA:'',
           Ensure_root_path_mounted ''SDCARD:''] @
          es @ Ui_reset_progress # Get_menu_selection # ys \<and>
        (\<forall>e\<in>set es. retiring e)) \<and>
   INSTALL_SUCCESS = INSTALL_SUCCESS \<and>
   fst (after_command data_fails no_options INSTALL_SUCCESS idle) \<noteq> Waits_for_key \<and>
   (\<exists>es. trace (snd (after_command data_fails no_options INSTALL_SUCCESS idle)) = trace idle @ es \<and>
      Get_menu_selection \<notin> set es \<and> Ui_set_background BACKGROUND_ICON_ERROR \<notin> set es)"
proof -
  have n: "INSTALL_ERROR \<noteq> INSTALL_SUCCESS" by (simp add: INSTALL_ERROR_def INSTALL_SUCCESS_def)
  show ?thesis
    using n after_command_error_prompts[of INSTALL_ERROR data_fails no_options idle]
      after_command_error_prompts[of INSTALL_SUCCESS data_fails no_options idle]
    by blast
qed

text \<open>
  C10. With both wipe flags set and no update package, when formatting the data partition
  fails the cache partition is formatted all the same, and the status is
  \<^verbatim>\<open>INSTALL_ERROR\<close> whatever formatting the cache partition returns.
\<close>

theorem run_command_erases_cache_after_data_failed:
  assumes "update_package opts = None" and "wipe_data opts" and "wipe_cache opts"
    and "format_root_device c ''DATA:'' \<noteq> 0"
  shows "fst (run_command c opts w) = INSTALL_ERROR \<and>
         trace (snd (run_command c opts w)) =
           trace w @
           [Ui_set_background BACKGROUND_ICON_INSTALLING, Ui_show_indeterminate_progress,
            Ui_print ''Formatting DATA:..'', Format_root_device ''DATA:'',
            Ui_set_background BACKGROUND_ICON_INSTALLING, Ui_show_indeterminate_progress,
            Ui_print ''Formatting CACHE:..'', Format_root_device ''CACHE:'',
            Ui_print (''Data wipe failed.'' @ [LF])]"
proof -
  have "wipe_data opts \<or> wipe_cache opts" using assms(2) by simp
  from run_command_wipe[OF assms(1) this] assms(2,3,4)
  show ?thesis by (simp add: Let_def erase_events_def)
qed

theorem run_command_erases_cache_after_data_failed_witness:
  "update_package (no_options\<lparr>wipe_data := True, wipe_cache := True\<rparr>) = None \<and>
   wipe_data (no_options\<lparr>wipe_data := True, wipe_cache := True\<rparr>) \<and>
   wipe_cache (no_options\<lparr>wipe_data := True, wipe_cache := True\<rparr>) \<and>
   format_root_device data_fails ''DATA:'' \<noteq> 0 \<and>
   fst (run_command data_fails (no_options\<lparr>wipe_data := True, wipe_cache := True\<rparr>) idle) = INSTALL_ERROR \<and>
   trace (snd (run_command data_fails (no_options\<lparr>wipe_data := True, wipe_cache := True\<rparr>) idle)) =
     trace idle @
     [Ui_set_background BACKGROUND_ICON_INSTALLING, Ui_show_indeterminate_progress,
      Ui_print ''Formatting DATA:..'', Format_root_device ''DATA:'',
      Ui_set_background BACKGROUND_ICON_INSTALLING, Ui_show_indeterminate_progress,
      Ui_print ''Formatting CACHE:..'', Format_root_device ''CACHE:'',
      Ui_print (''Data wipe failed.'' @ [LF])]"
proof -
  let ?o = "no_options\<lparr>wipe_data := True, wipe_cache := True\<rparr>"
  have h: "update_package ?o = None" "wipe_data ?o" "wipe_cache ?o"
    "format_root_device data_fails ''DATA:'' \<noteq> 0"
    by (simp_all add: no_options_def data_fails_def)
  show ?thesis using h run_command_erases_cache_after_data_failed[OF h, of idle] by simp
qed

end
